theory Spec2Isabelle
  imports Main "HOL-Library.Word"
begin

section \<open>JavaScript strings\<close>

text \<open>
  A JavaScript string is a sequence of UTF-16 code units. A code point of the Basic
  Multilingual Plane is one unit; a code point from U+10000 on is a pair of surrogate
  units (a high one in D800..DBFF, then a low one in DC00..DFFF). A regular expression
  without the \<^verbatim>\<open>u\<close> flag, \<^verbatim>\<open>trim\<close> and \<^verbatim>\<open>split\<close> all work on
  code units.
\<close>

type_synonym jschar = "16 word"
type_synonym jsstring = "jschar list"

definition jsstr :: "string \<Rightarrow> jsstring" where
  \<comment> \<open>an ASCII literal of the source as code units\<close>
  "jsstr s = map (\<lambda>c. of_nat (of_char c)) s"

definition isHighSurrogate :: "jschar \<Rightarrow> bool" where
  "isHighSurrogate c = (0xD800 \<le> c \<and> c \<le> 0xDBFF)"

definition isLowSurrogate :: "jschar \<Rightarrow> bool" where
  "isLowSurrogate c = (0xDC00 \<le> c \<and> c \<le> 0xDFFF)"

fun codePoints :: "jsstring \<Rightarrow> nat list" where
  \<comment> \<open>the code points of a string, as the string iterator and \<^verbatim>\<open>codePointAt\<close> read
      them: a well-formed surrogate pair is one code point, any other unit is itself\<close>
  "codePoints [] = []"
| "codePoints [c] = [unat c]"
| "codePoints (hi # lo # cs) =
     (if isHighSurrogate hi \<and> isLowSurrogate lo
      then (0x10000 + (unat hi - 0xD800) * 0x400 + (unat lo - 0xDC00)) # codePoints cs
      else unat hi # codePoints (lo # cs))"

definition isWhiteSpace :: "jschar \<Rightarrow> bool" where
  \<comment> \<open>ECMAScript WhiteSpace and LineTerminator: what \<^verbatim>\<open>\s\<close> matches and what
      \<^verbatim>\<open>trim\<close> removes\<close>
  "isWhiteSpace c =
     (c = 0x0009 \<or> c = 0x000A \<or> c = 0x000B \<or> c = 0x000C \<or> c = 0x000D \<or> c = 0x0020 \<or>
      c = 0x00A0 \<or> c = 0x1680 \<or> (0x2000 \<le> c \<and> c \<le> 0x200A) \<or> c = 0x2028 \<or>
      c = 0x2029 \<or> c = 0x202F \<or> c = 0x205F \<or> c = 0x3000 \<or> c = 0xFEFF)"

definition trimEnd :: "jsstring \<Rightarrow> jsstring" where
  \<comment> \<open>\<^verbatim>\<open>text.replace(/\s+$/g, '')\<close>\<close>
  "trimEnd s = rev (dropWhile isWhiteSpace (rev s))"

definition trim :: "jsstring \<Rightarrow> jsstring" where
  \<comment> \<open>\<^verbatim>\<open>String.prototype.trim\<close>\<close>
  "trim s = trimEnd (dropWhile isWhiteSpace s)"

fun split_lf :: "jsstring \<Rightarrow> jsstring list" where
  \<comment> \<open>\<^verbatim>\<open>content.split('\n')\<close>: the pieces between line feeds, never an empty list\<close>
  "split_lf [] = [[]]"
| "split_lf (c # cs) =
     (if c = 0x000A then [] # split_lf cs
      else (case split_lf cs of [] \<Rightarrow> [[c]] | r # rs \<Rightarrow> (c # r) # rs))"

function toString_nat :: "nat \<Rightarrow> jsstring" where
  \<comment> \<open>\<^verbatim>\<open>Number.prototype.toString\<close> on a non-negative integer index: decimal digits\<close>
  "toString_nat n =
     (if n < 10 then [of_nat (48 + n)]
      else toString_nat (n div 10) @ [of_nat (48 + n mod 10)])"
  by pat_completeness auto
termination
  by (relation "measure (\<lambda>n. n)") auto

declare toString_nat.simps [simp del]

definition mapi :: "('a \<Rightarrow> nat \<Rightarrow> 'b) \<Rightarrow> 'a list \<Rightarrow> 'b list" where
  \<comment> \<open>\<^verbatim>\<open>xs.map((x, index) => f(x, index))\<close>\<close>
  "mapi f xs = map (\<lambda>(x, index). f x index) (zip xs [0..<length xs])"

section \<open>Script detector\<close>

definition myanmarRegex_test :: "jsstring \<Rightarrow> bool" where
  \<comment> \<open>the regular expression of the ranges 1000-109F, A9E0-A9FF and AA60-AA7F, tested on \<^verbatim>\<open>text\<close>\<close>
  "myanmarRegex_test text =
     list_ex (\<lambda>c. (0x1000 \<le> c \<and> c \<le> 0x109F) \<or> (0xA9E0 \<le> c \<and> c \<le> 0xA9FF) \<or>
                   (0xAA60 \<le> c \<and> c \<le> 0xAA7F)) text"

definition hasMyanmarText :: "jsstring list \<Rightarrow> bool" where
  \<comment> \<open>\<^verbatim>\<open>texts.some((text) => myanmarRegex.test(text))\<close>\<close>
  "hasMyanmarText texts = list_ex myanmarRegex_test texts"

definition inMyanmarBlocks :: "nat \<Rightarrow> bool" where
  \<comment> \<open>a code point of the blocks Myanmar, Myanmar Extended-B or Myanmar Extended-A\<close>
  "inMyanmarBlocks cp =
     ((0x1000 \<le> cp \<and> cp \<le> 0x109F) \<or> (0xA9E0 \<le> cp \<and> cp \<le> 0xA9FF) \<or>
      (0xAA60 \<le> cp \<and> cp \<le> 0xAA7F))"


section \<open>Dataset formatter\<close>

text \<open>
  A row is an object with one own property; objects are association lists of their
  properties, in insertion order.
\<close>

type_synonym PdfRow = "(jsstring \<times> jsstring) list"

record PdfPageData =
  pageNumber :: nat
  content :: "PdfRow list"

definition toPageData :: "jsstring \<Rightarrow> nat \<Rightarrow> PdfPageData" where
  \<comment> \<open>the callback of \<^verbatim>\<open>pageTexts.map\<close> in \<^verbatim>\<open>processPdfFile\<close>\<close>
  "toPageData text index =
     (let rows = filter (\<lambda>row. trim row \<noteq> []) (split_lf text);
          rowArray = mapi (\<lambda>row rowIndex. [(toString_nat rowIndex, trim row)]) rows
      in \<lparr>pageNumber = index + 1, content = rowArray\<rparr>)"

definition toDataset :: "jsstring list \<Rightarrow> PdfPageData list" where
  "toDataset texts = mapi toPageData texts"


section \<open>The engines the component calls\<close>

text \<open>
  The PDF engine, the OCR engine and the browser are outside the component. Each of their
  calls is given by its outcome: \<open>Inl\<close> the value thrown (the value a promise is
  rejected with), \<open>Inr\<close> the value returned. JavaScript throws any value: an
  \<^verbatim>\<open>Error\<close> object, which has a \<^verbatim>\<open>message\<close>, or a value that is not an
  \<^verbatim>\<open>Error\<close>, such as the strings the OCR engine rejects with, which has none.
\<close>

datatype js_error =
    Error jsstring \<comment> \<open>an \<^verbatim>\<open>Error\<close> object with its message\<close>
  | Thrown jsstring \<comment> \<open>a string thrown as it is\<close>

fun message :: "js_error \<Rightarrow> jsstring option" where
  \<comment> \<open>the property \<^verbatim>\<open>message\<close> of a caught value; a string has none (\<^verbatim>\<open>undefined\<close>)\<close>
  "message (Error m) = Some m"
| "message (Thrown s) = None"

datatype text_item = TextItem jsstring | TextMarkedContent

fun str :: "text_item \<Rightarrow> jsstring option" where
  \<comment> \<open>\<^verbatim>\<open>item.str\<close> when it is a string\<close>
  "str (TextItem s) = Some s"
| "str TextMarkedContent = None"

record pdf_page =
  getTextContent :: "js_error + text_item list"
  render :: "js_error option" \<comment> \<open>\<open>Some e\<close>: the render task's promise rejects\<close>
  toDataURL :: "js_error + jsstring" \<comment> \<open>the PNG data URL of the canvas the page is drawn on\<close>

record pdf_document =
  numPages :: nat
  getPage :: "nat \<Rightarrow> js_error + pdf_page"

record ocr_worker =
  recognize :: "jsstring \<Rightarrow> js_error + jsstring option" \<comment> \<open>\<^verbatim>\<open>result.data.text\<close>, when there is one\<close>
  terminate :: "js_error option"

record browser =
  normalize_NFC :: "jsstring \<Rightarrow> js_error + jsstring"
  import_pdfjs :: "js_error option"
    \<comment> \<open>the two dynamic imports of pdfjs-dist and the worker's blob URL\<close>
  import_tesseract :: "js_error + (jsstring \<Rightarrow> js_error + ocr_worker)"
    \<comment> \<open>the dynamic import of tesseract.js; its \<^verbatim>\<open>createWorker\<close>, by language path\<close>
  getContext_2d :: "nat \<Rightarrow> bool"
    \<comment> \<open>whether the canvas created for page \<open>i\<close> gives a 2D context\<close>

record js_file =
  file_type :: jsstring
  file_size :: nat
  getDocument :: "js_error + pdf_document"
    \<comment> \<open>\<^verbatim>\<open>arrayBuffer\<close> and the engine's \<^verbatim>\<open>getDocument\<close> on the file's bytes\<close>

section \<open>State of the component\<close>

record PdfInternalData =
  pdf_pages :: nat \<comment> \<open>the field \<^verbatim>\<open>numPages\<close>\<close>
  pageTexts :: "jsstring list"
  processedData :: "PdfPageData list option"

record ui_state =
  file_state :: "js_file option" \<comment> \<open>the state variable \<^verbatim>\<open>file\<close>\<close>
  pdfData :: "PdfInternalData option"
  currentPage :: nat
  isLoading :: bool
  error :: "jsstring option"

datatype event =
    OnPdfProcessed "PdfPageData list"
  | GetDocument
  | ImportTesseract
  | CreateWorker jsstring
  | Recognize nat
  | Terminate
  | RevokeObjectURL

text \<open>
  The world is the component's React state and the trace of the calls it has made to its
  collaborators: the callback \<^verbatim>\<open>onPdfProcessed\<close> with its argument, and the engines.
\<close>

record world =
  ui :: ui_state
  trace :: "event list"

definition call :: "event \<Rightarrow> world \<Rightarrow> world" where
  "call e w = w\<lparr>trace := trace w @ [e]\<rparr>"

definition setFile :: "js_file option \<Rightarrow> world \<Rightarrow> world" where
  "setFile v w = w\<lparr>ui := (ui w)\<lparr>file_state := v\<rparr>\<rparr>"

definition setPdfData :: "PdfInternalData option \<Rightarrow> world \<Rightarrow> world" where
  "setPdfData v w = w\<lparr>ui := (ui w)\<lparr>pdfData := v\<rparr>\<rparr>"

definition setCurrentPage :: "nat \<Rightarrow> world \<Rightarrow> world" where
  "setCurrentPage v w = w\<lparr>ui := (ui w)\<lparr>currentPage := v\<rparr>\<rparr>"

definition setIsLoading :: "bool \<Rightarrow> world \<Rightarrow> world" where
  "setIsLoading v w = w\<lparr>ui := (ui w)\<lparr>isLoading := v\<rparr>\<rparr>"

definition setError :: "jsstring option \<Rightarrow> world \<Rightarrow> world" where
  "setError v w = w\<lparr>ui := (ui w)\<lparr>error := v\<rparr>\<rparr>"

definition onPdfProcessed :: "PdfPageData list \<Rightarrow> world \<Rightarrow> world" where
  "onPdfProcessed data w = call (OnPdfProcessed data) w"

definition resetState :: "world \<Rightarrow> world" where
  "resetState w =
     onPdfProcessed []
       (setError None (setIsLoading False (setCurrentPage 1 (setPdfData None (setFile None w)))))"

section \<open>Text-layer extractor\<close>

definition normalizeOrKeep :: "browser \<Rightarrow> jsstring \<Rightarrow> jsstring" where
  \<comment> \<open>\<^verbatim>\<open>try { text = text.normalize('NFC') } catch { }\<close>\<close>
  "normalizeOrKeep env text = (case normalize_NFC env text of Inl _ \<Rightarrow> text | Inr t \<Rightarrow> t)"

definition joinItems :: "text_item list \<Rightarrow> jsstring" where
  \<comment> \<open>the loop over \<^verbatim>\<open>textContent.items\<close>\<close>
  "joinItems items =
     foldl (\<lambda>text item. case str item of Some s \<Rightarrow> text @ s | None \<Rightarrow> text) [] items"

function extractLoop ::
  "browser \<Rightarrow> pdf_document \<Rightarrow> nat \<Rightarrow> jsstring list \<Rightarrow> js_error + jsstring list" where
  "extractLoop env pdf i texts =
     (if i \<le> numPages pdf then
        (case getPage pdf i of
           Inl e \<Rightarrow> Inl e
         | Inr page \<Rightarrow>
            (case getTextContent page of
               Inl e \<Rightarrow> Inl e
             | Inr items \<Rightarrow>
                extractLoop env pdf (Suc i)
                  (texts @ [normalizeOrKeep env (trimEnd (joinItems items))])))
      else Inr texts)"
  by pat_completeness auto
termination
  by (relation "measure (\<lambda>(env, pdf, i, texts). Suc (numPages pdf) - i)") auto

declare extractLoop.simps [simp del]

definition extractTextWithPdfJs :: "browser \<Rightarrow> pdf_document \<Rightarrow> js_error + jsstring list" where
  "extractTextWithPdfJs env pdf = extractLoop env pdf 1 []"


section \<open>OCR fallback\<close>

definition langPaths :: "jsstring list" where
  "langPaths =
     [jsstr ''https://cdn.jsdelivr.net/npm/tesseract.js@4.0.2/lang-data/'',
      jsstr ''https://tessdata.projectnaptha.com/4.0.0/'',
      jsstr ''https://raw.githubusercontent.com/naptha/tessdata/gh-pages/4.0.0/'']"

fun loadWorker ::
  "(jsstring \<Rightarrow> js_error + ocr_worker) \<Rightarrow> jsstring list \<Rightarrow> js_error option \<Rightarrow> world \<Rightarrow>
     ocr_worker option \<times> js_error option \<times> world" where
  \<comment> \<open>the loop over the language paths: the worker (if any), \<^verbatim>\<open>lastError\<close>, the world\<close>
  "loadWorker createWorker [] lastError w = (None, lastError, w)"
| "loadWorker createWorker (path # paths) lastError w =
     (case createWorker path of
        Inr worker \<Rightarrow> (Some worker, lastError, call (CreateWorker path) w)
      | Inl err \<Rightarrow> loadWorker createWorker paths (Some err) (call (CreateWorker path) w))"

definition loadFailure :: "js_error option \<Rightarrow> js_error" where
  \<comment> \<open>the error thrown when no worker was created; \<^verbatim>\<open>lastError?.message\<close> prints as
      \<^verbatim>\<open>undefined\<close> when \<^verbatim>\<open>lastError\<close> is \<^verbatim>\<open>null\<close> and when the value caught has
      no message\<close>
  "loadFailure lastError =
     Error (jsstr ''Failed to load Myanmar language data for OCR. Last error: '' @
            (case lastError of
               None \<Rightarrow> jsstr ''undefined''
             | Some e \<Rightarrow> (case message e of None \<Rightarrow> jsstr ''undefined'' | Some m \<Rightarrow> m)))"

definition ocrStatus :: "nat \<Rightarrow> nat \<Rightarrow> jsstring" where
  \<comment> \<open>the status message of a page; it ends with the ellipsis U+2026\<close>
  "ocrStatus i n =
     jsstr ''Processing page '' @ toString_nat i @ jsstr '' of '' @ toString_nat n @
     jsstr '' with OCR'' @ [0x2026]"

definition recognizePage :: "browser \<Rightarrow> ocr_worker \<Rightarrow> pdf_page \<Rightarrow> jsstring \<times> bool" where
  \<comment> \<open>the inner \<^verbatim>\<open>try\<close> of the page loop with its \<^verbatim>\<open>catch\<close>: the text pushed for the
      page, and whether \<^verbatim>\<open>worker.recognize\<close> was called\<close>
  "recognizePage env worker page =
     (case toDataURL page of
        Inl ocrErr \<Rightarrow> ([], False)
      | Inr imageData \<Rightarrow>
         (case recognize worker imageData of
            Inl ocrErr \<Rightarrow> ([], True)
          | Inr result \<Rightarrow>
             (normalizeOrKeep env (case result of None \<Rightarrow> [] | Some t \<Rightarrow> t), True)))"

function ocrLoop ::
  "browser \<Rightarrow> pdf_document \<Rightarrow> ocr_worker \<Rightarrow> (jsstring \<Rightarrow> ui_state \<Rightarrow> ui_state) \<Rightarrow>
     nat \<Rightarrow> jsstring list \<Rightarrow> world \<Rightarrow> (js_error + jsstring list) \<times> world" where
  "ocrLoop env pdf worker updateStatus i texts w =
     (if i \<le> numPages pdf then
        (let w1 = w\<lparr>ui := updateStatus (ocrStatus i (numPages pdf)) (ui w)\<rparr> in
         case getPage pdf i of
           Inl e \<Rightarrow> (Inl e, w1)
         | Inr page \<Rightarrow>
            if \<not> getContext_2d env i
            then ocrLoop env pdf worker updateStatus (Suc i) (texts @ [[]]) w1
            else
              (case render page of
                 Some e \<Rightarrow> (Inl e, w1)
               | None \<Rightarrow>
                  (case recognizePage env worker page of
                     (text, called) \<Rightarrow>
                       ocrLoop env pdf worker updateStatus (Suc i) (texts @ [text])
                         (if called then call (Recognize i) w1 else w1))))
      else (Inr texts, w))"
  by pat_completeness auto
termination
  by (relation "measure (\<lambda>(env, pdf, worker, updateStatus, i, texts, w). Suc (numPages pdf) - i)")
     auto

declare ocrLoop.simps [simp del]

definition runMyanmarOcrOnPdf ::
  "browser \<Rightarrow> pdf_document \<Rightarrow> (jsstring \<Rightarrow> ui_state \<Rightarrow> ui_state) \<Rightarrow> world \<Rightarrow>
     (js_error + jsstring list) \<times> world" where
  "runMyanmarOcrOnPdf env pdf updateStatus w =
     (case import_tesseract env of
        Inl e \<Rightarrow> (Inl e, call ImportTesseract w)
      | Inr createWorker \<Rightarrow>
         (case loadWorker createWorker langPaths None (call ImportTesseract w) of
            (None, lastError, w1) \<Rightarrow> (Inl (loadFailure lastError), w1)
          | (Some worker, lastError, w1) \<Rightarrow>
             (case ocrLoop env pdf worker updateStatus 1 [] w1 of
                (r, w2) \<Rightarrow> (r, call Terminate w2))))"

section \<open>Extraction orchestrator\<close>

definition showStatus :: "jsstring \<Rightarrow> ui_state \<Rightarrow> ui_state" where
  \<comment> \<open>the status callback \<^verbatim>\<open>(msg) => setError(msg)\<close> given to the OCR run\<close>
  "showStatus msg u = u\<lparr>error := Some msg\<rparr>"

definition ocrAdvisory :: jsstring where
  "ocrAdvisory =
     jsstr ''Standard text extraction failed. Running OCR for Myanmar text (may be slower)'' @
     [0x2026]"

definition processFailure :: jsstring where
  "processFailure =
     jsstr (''Failed to process PDF. The file may be corrupted, image-only, '' @
            ''or use unsupported fonts/encoding for Myanmar text.'')"

text \<open>
  \<^verbatim>\<open>processPdfFile\<close> in three parts: what runs before the first \<^verbatim>\<open>await\<close>; the
  awaited calls of the \<^verbatim>\<open>try\<close> block, up to the page texts (or the error thrown), with
  whether \<^verbatim>\<open>workerBlobUrl\<close> was set; and what runs after the last \<^verbatim>\<open>await\<close>
  (the rest of the \<^verbatim>\<open>try\<close> block or the \<^verbatim>\<open>catch\<close>, then the \<^verbatim>\<open>finally\<close>).
\<close>

definition processPdfFile_start :: "world \<Rightarrow> world" where
  "processPdfFile_start w = setError None (setIsLoading True w)"

definition processPdfFile_try ::
  "browser \<Rightarrow> js_file \<Rightarrow> world \<Rightarrow> (js_error + nat \<times> jsstring list) \<times> bool \<times> world" where
  "processPdfFile_try env selectedFile w =
     (case import_pdfjs env of
        Some e \<Rightarrow> (Inl e, False, w)
      | None \<Rightarrow>
         (case getDocument selectedFile of
            Inl e \<Rightarrow> (Inl e, True, call GetDocument w)
          | Inr pdf \<Rightarrow>
             (case extractTextWithPdfJs env pdf of
                Inl e \<Rightarrow> (Inl e, True, call GetDocument w)
              | Inr texts \<Rightarrow>
                 (let anyNonEmpty = list_ex (\<lambda>t. trim t \<noteq> []) texts;
                      hasMyanmarChars = hasMyanmarText texts
                  in if \<not> anyNonEmpty \<or> \<not> hasMyanmarChars
                     then
                       (case runMyanmarOcrOnPdf env pdf showStatus
                               (setError (Some ocrAdvisory) (call GetDocument w)) of
                          (Inl e, w1) \<Rightarrow> (Inl e, True, w1)
                        | (Inr ocrTexts, w1) \<Rightarrow> (Inr (numPages pdf, ocrTexts), True, w1))
                     else (Inr (numPages pdf, texts), True, call GetDocument w)))))"

definition processPdfFile_finish ::
  "(js_error + nat \<times> jsstring list) \<Rightarrow> bool \<Rightarrow> world \<Rightarrow> world" where
  "processPdfFile_finish r workerBlobUrl w =
     (let w1 = (case r of
                  Inr (n, texts) \<Rightarrow>
                    onPdfProcessed (toDataset texts)
                      (setPdfData (Some \<lparr>pdf_pages = n, pageTexts = texts,
                                          processedData = Some (toDataset texts)\<rparr>) w)
                | Inl err \<Rightarrow> setError (Some processFailure) w);
          w2 = setIsLoading False w1
      in if workerBlobUrl then call RevokeObjectURL w2 else w2)"

definition processPdfFile :: "browser \<Rightarrow> js_file \<Rightarrow> world \<Rightarrow> world" where
  "processPdfFile env selectedFile w =
     (case processPdfFile_try env selectedFile (processPdfFile_start w) of
        (r, workerBlobUrl, w1) \<Rightarrow> processPdfFile_finish r workerBlobUrl w1)"

definition handleFileChange :: "browser \<Rightarrow> js_file option \<Rightarrow> world \<Rightarrow> world" where
  "handleFileChange env files w =
     (let w0 = resetState w in
      case files of
        None \<Rightarrow> w0
      | Some selectedFile \<Rightarrow>
          if file_type selectedFile \<noteq> jsstr ''application/pdf''
          then setError (Some (jsstr ''Please select a valid PDF file.'')) w0
          else if file_size selectedFile > 20 * 1024 * 1024
          then setError
                 (Some (jsstr ''File size exceeds 20MB limit. Please select a smaller file.'')) w0
          else processPdfFile env selectedFile (setFile (Some selectedFile) w0))"

section \<open>The page that receives the dataset\<close>

datatype page_status = Idle | Processed

record page_state =
  page_pdfData :: "PdfPageData list" \<comment> \<open>the page's own state variable \<^verbatim>\<open>pdfData\<close>\<close>
  status :: page_status

definition handlePdfProcessed :: "PdfPageData list \<Rightarrow> page_state \<Rightarrow> page_state" where
  "handlePdfProcessed data p =
     p\<lparr>page_pdfData := data, status := (if length data > 0 then Processed else Idle)\<rparr>"

definition page_after :: "event list \<Rightarrow> page_state \<Rightarrow> page_state" where
  \<comment> \<open>the page's state once the callbacks of a trace have run\<close>
  "page_after evs p =
     foldl (\<lambda>q e. case e of OnPdfProcessed data \<Rightarrow> handlePdfProcessed data q | _ \<Rightarrow> q) p evs"


section \<open>Helpers for stating the properties\<close>

fun join_lf :: "jsstring list \<Rightarrow> jsstring" where
  \<comment> \<open>\<^verbatim>\<open>rows.join('\n')\<close>, as the preview joins the rows it shows\<close>
  "join_lf [] = []"
| "join_lf [r] = r"
| "join_lf (r # rs) = r @ 0x000A # join_lf rs"

definition fromDigits :: "jsstring \<Rightarrow> nat" where
  \<comment> \<open>the number a string of decimal digits denotes\<close>
  "fromDigits s = foldl (\<lambda>a c. 10 * a + (unat c - 48)) 0 s"

definition rowExample :: jsstring where
  \<comment> \<open>the page text \<^verbatim>\<open>"a\n\nb\n  \nc"\<close>\<close>
  "rowExample =
     jsstr ''a'' @ [0x000A, 0x000A] @ jsstr ''b'' @ [0x000A, 0x0020, 0x0020, 0x000A] @ jsstr ''c''"

definition pageItems :: "pdf_document \<Rightarrow> nat \<Rightarrow> text_item list option" where
  \<comment> \<open>the text items of page \<open>i\<close>, when the page and its text content can be retrieved\<close>
  "pageItems pdf i =
     (case getPage pdf i of
        Inl e \<Rightarrow> None
      | Inr page \<Rightarrow> (case getTextContent page of Inl e \<Rightarrow> None | Inr items \<Rightarrow> Some items))"

definition pageRenders :: "browser \<Rightarrow> pdf_document \<Rightarrow> nat \<Rightarrow> bool" where
  \<comment> \<open>page \<open>i\<close> can be retrieved and, when its canvas has a 2D context, drawn on it\<close>
  "pageRenders env pdf i =
     (case getPage pdf i of
        Inl e \<Rightarrow> False
      | Inr page \<Rightarrow> (if getContext_2d env i then render page = None else True))"

fun isRecognize :: "event \<Rightarrow> bool" where
  "isRecognize (Recognize i) = True"
| "isRecognize e = False"

fun isCallback :: "event \<Rightarrow> bool" where
  "isCallback (OnPdfProcessed data) = True"
| "isCallback e = False"

section \<open>Example inputs\<close>

definition ex_page :: "text_item list \<Rightarrow> jsstring \<Rightarrow> pdf_page" where
  "ex_page items img = \<lparr>getTextContent = Inr items, render = None, toDataURL = Inr img\<rparr>"

definition ex_pdf :: pdf_document where
  \<comment> \<open>three pages with the text layers \<^verbatim>\<open>"Hello "\<close>, \<^verbatim>\<open>""\<close> and \<^verbatim>\<open>"World"\<close>\<close>
  "ex_pdf =
     \<lparr>numPages = 3,
      getPage = (\<lambda>i.
        if i = 1 then Inr (ex_page [TextItem (jsstr ''Hello''), TextMarkedContent,
                                    TextItem (jsstr '' '')] (jsstr ''1''))
        else if i = 2 then Inr (ex_page [] (jsstr ''2''))
        else if i = 3 then Inr (ex_page [TextItem (jsstr ''World'')] (jsstr ''3''))
        else Inl (Error (jsstr ''Invalid page request.'')))\<rparr>"

definition ex_pdf_unreadable :: pdf_document where
  \<comment> \<open>two pages; the text content of the second cannot be retrieved\<close>
  "ex_pdf_unreadable =
     \<lparr>numPages = 2,
      getPage = (\<lambda>i.
        if i = 1 then Inr (ex_page [TextItem (jsstr ''Hello'')] (jsstr ''1''))
        else if i = 2 then Inr \<lparr>getTextContent = Inl (Error (jsstr ''Bad content stream'')),
                                 render = None, toDataURL = Inr (jsstr ''2'')\<rparr>
        else Inl (Error (jsstr ''Invalid page request.'')))\<rparr>"

definition ex_worker :: ocr_worker where
  \<comment> \<open>recognizes \<^verbatim>\<open>"text"\<close> followed by the image's name\<close>
  "ex_worker = \<lparr>recognize = (\<lambda>img. Inr (Some (jsstr ''text'' @ img))), terminate = None\<rparr>"

definition ex_browser :: browser where
  \<comment> \<open>normalization leaves the ASCII texts of the examples as they are; the language
      data loads from the second location only\<close>
  "ex_browser =
     \<lparr>normalize_NFC = Inr, import_pdfjs = None,
      import_tesseract = Inr (\<lambda>path.
        if path = jsstr ''https://tessdata.projectnaptha.com/4.0.0/'' then Inr ex_worker
        else Inl (Error (jsstr ''Network error: '' @ path))),
      getContext_2d = (\<lambda>i. True)\<rparr>"

definition ex_browser_offline :: browser where
  \<comment> \<open>no location of the language data can be loaded\<close>
  "ex_browser_offline =
     \<lparr>normalize_NFC = Inr, import_pdfjs = None,
      import_tesseract = Inr (\<lambda>path. Inl (Error (jsstr ''Network error: '' @ path))),
      getContext_2d = (\<lambda>i. True)\<rparr>"

definition ex_createWorker_unreachable :: "jsstring \<Rightarrow> js_error + ocr_worker" where
  \<comment> \<open>the OCR engine rejects with a string, at every location\<close>
  "ex_createWorker_unreachable path =
     Inl (Thrown (jsstr ''Error: Network error while fetching '' @ path))"

definition ex_browser_unreachable :: browser where
  "ex_browser_unreachable =
     \<lparr>normalize_NFC = Inr, import_pdfjs = None,
      import_tesseract = Inr ex_createWorker_unreachable,
      getContext_2d = (\<lambda>i. True)\<rparr>"

definition ex_world :: world where
  \<comment> \<open>the component as it is mounted\<close>
  "ex_world =
     \<lparr>ui = \<lparr>file_state = None, pdfData = None, currentPage = 1, isLoading = False,
             error = None\<rparr>,
      trace = []\<rparr>"

definition ex_pdf_scanned :: pdf_document where
  \<comment> \<open>three pages without a text layer; the image of the second cannot be read\<close>
  "ex_pdf_scanned =
     \<lparr>numPages = 3,
      getPage = (\<lambda>i.
        if i = 1 then Inr (ex_page [] (jsstr ''1''))
        else if i = 2 then Inr \<lparr>getTextContent = Inr [], render = None,
                                 toDataURL = Inl (Error (jsstr ''Canvas is too large''))\<rparr>
        else if i = 3 then Inr (ex_page [] (jsstr ''3''))
        else Inl (Error (jsstr ''Invalid page request.'')))\<rparr>"

definition ex_pdf_undrawable :: pdf_document where
  \<comment> \<open>three pages without a text layer; the second cannot be rendered\<close>
  "ex_pdf_undrawable =
     \<lparr>numPages = 3,
      getPage = (\<lambda>i.
        if i = 1 then Inr (ex_page [] (jsstr ''1''))
        else if i = 2 then Inr \<lparr>getTextContent = Inr [],
                                 render = Some (Error (jsstr ''Rendering cancelled'')),
                                 toDataURL = Inr (jsstr ''2'')\<rparr>
        else if i = 3 then Inr (ex_page [] (jsstr ''3''))
        else Inl (Error (jsstr ''Invalid page request.'')))\<rparr>"

definition ex_file :: "pdf_document \<Rightarrow> js_file" where
  "ex_file pdf =
     \<lparr>file_type = jsstr ''application/pdf'', file_size = 4096, getDocument = Inr pdf\<rparr>"

definition ex_pdf_myanmar :: pdf_document where
  \<comment> \<open>one page whose text layer is a Myanmar word\<close>
  "ex_pdf_myanmar =
     \<lparr>numPages = 1,
      getPage = (\<lambda>i.
        if i = 1 then Inr (ex_page [TextItem [0x1019, 0x103C, 0x1014, 0x103A, 0x1019, 0x102C]]
                                   (jsstr ''1''))
        else Inl (Error (jsstr ''Invalid page request.'')))\<rparr>"

definition ex_file_text :: js_file where
  \<comment> \<open>a file that is not a PDF\<close>
  "ex_file_text =
     \<lparr>file_type = jsstr ''text/plain'', file_size = 12,
      getDocument = Inl (Error (jsstr ''Invalid PDF structure.''))\<rparr>"

definition ex_file_large :: js_file where
  \<comment> \<open>a PDF of one byte more than 20 MiB\<close>
  "ex_file_large =
     \<lparr>file_type = jsstr ''application/pdf'', file_size = 20 * 1024 * 1024 + 1,
      getDocument = Inr ex_pdf\<rparr>"

definition ex_file_corrupt :: js_file where
  \<comment> \<open>a PDF the engine cannot parse\<close>
  "ex_file_corrupt =
     \<lparr>file_type = jsstr ''application/pdf'', file_size = 4096,
      getDocument = Inl (Error (jsstr ''Invalid PDF structure.''))\<rparr>"



section \<open>Properties of the script detector\<close>

lemma unit_in_blocks:
  "((0x1000 \<le> c \<and> c \<le> 0x109F) \<or> (0xA9E0 \<le> c \<and> c \<le> 0xA9FF) \<or>
    (0xAA60 \<le> c \<and> c \<le> 0xAA7F)) = inMyanmarBlocks (unat (c::jschar))"
  by (simp add: inMyanmarBlocks_def word_le_nat_alt)

lemma surrogate_not_myanmar:
  "isHighSurrogate c \<or> isLowSurrogate c \<Longrightarrow> \<not> inMyanmarBlocks (unat c)"
  by (auto simp: inMyanmarBlocks_def isHighSurrogate_def isLowSurrogate_def word_le_nat_alt)

lemma pair_not_myanmar: "\<not> inMyanmarBlocks (0x10000 + a * 0x400 + b)"
  by (simp add: inMyanmarBlocks_def)

lemma myanmarRegex_test_Cons:
  "myanmarRegex_test (c # cs) = (inMyanmarBlocks (unat c) \<or> myanmarRegex_test cs)"
  by (simp add: myanmarRegex_test_def unit_in_blocks)

lemma myanmarRegex_codePoints:
  "myanmarRegex_test s = list_ex inMyanmarBlocks (codePoints s)"
proof (induction s rule: codePoints.induct)
  case 1
  show ?case by (simp add: myanmarRegex_test_def)
next
  case (2 c)
  show ?case by (simp add: myanmarRegex_test_Cons) (simp add: myanmarRegex_test_def)
next
  case (3 hi lo cs)
  show ?case
  proof (cases "isHighSurrogate hi \<and> isLowSurrogate lo")
    case True
    then have nh: "\<not> inMyanmarBlocks (unat hi)" and nl: "\<not> inMyanmarBlocks (unat lo)"
      by (simp_all add: surrogate_not_myanmar)
    from True 3 have ih: "myanmarRegex_test cs = list_ex inMyanmarBlocks (codePoints cs)"
      by simp
    have "codePoints (hi # lo # cs) =
        (0x10000 + (unat hi - 0xD800) * 0x400 + (unat lo - 0xDC00)) # codePoints cs"
      using True by simp
    then show ?thesis
      using nh nl ih pair_not_myanmar[of "unat hi - 0xD800" "unat lo - 0xDC00"]
      by (simp add: myanmarRegex_test_Cons)
  next
    case False
    with 3 have ih:
      "myanmarRegex_test (lo # cs) = list_ex inMyanmarBlocks (codePoints (lo # cs))"
      by simp
    have "codePoints (hi # lo # cs) = unat hi # codePoints (lo # cs)"
      using False by auto
    then show ?thesis
      using ih by (simp add: myanmarRegex_test_Cons[of hi])
  qed
qed

text \<open>
  C7. The script detector is a function of the page texts alone, and it returns true
  exactly when some page text contains a code point of the blocks U+1000..U+109F,
  U+A9E0..U+A9FF or U+AA60..U+AA7F; so it is false on a sequence with no such code point,
  the empty sequence included. The detector tests UTF-16 code units; the code points are
  those the string decodes to, a surrogate pair being one code point.
\<close>

theorem hasMyanmarText_iff_code_point:
  "hasMyanmarText texts =
     list_ex (\<lambda>text. list_ex inMyanmarBlocks (codePoints text)) texts"
  by (simp add: hasMyanmarText_def list_ex_iff myanmarRegex_codePoints)

theorem hasMyanmarText_iff_code_point_witness:
  "hasMyanmarText [jsstr ''Hi'', [0x1000, 0x102C]] \<and> \<not> hasMyanmarText [] \<and>
   \<not> hasMyanmarText [jsstr ''Hi'', [0xD83D, 0xDE00]]"
  using hasMyanmarText_iff_code_point[of "[jsstr ''Hi'', [0x1000, 0x102C]]"]
    hasMyanmarText_iff_code_point[of "[]"]
    hasMyanmarText_iff_code_point[of "[jsstr ''Hi'', [0xD83D, 0xDE00]]"]
  by (simp add: jsstr_def inMyanmarBlocks_def isHighSurrogate_def isLowSurrogate_def)

section \<open>Properties of the dataset formatter\<close>

lemma trimEnd_Nil_iff: "trimEnd s = [] \<longleftrightarrow> (\<forall>c\<in>set s. isWhiteSpace c)"
  by (simp add: trimEnd_def dropWhile_eq_Nil_conv)

lemma trim_Nil_iff: "trim s = [] \<longleftrightarrow> (\<forall>c\<in>set s. isWhiteSpace c)"
proof
  assume "trim s = []"
  then have a: "\<forall>c\<in>set (dropWhile isWhiteSpace s). isWhiteSpace c"
    by (simp add: trim_def trimEnd_Nil_iff)
  have "dropWhile isWhiteSpace s = []"
  proof (rule ccontr)
    assume n: "dropWhile isWhiteSpace s \<noteq> []"
    then have "\<not> isWhiteSpace (hd (dropWhile isWhiteSpace s))" by (rule hd_dropWhile)
    moreover have "hd (dropWhile isWhiteSpace s) \<in> set (dropWhile isWhiteSpace s)"
      using n by simp
    ultimately show False using a by blast
  qed
  then show "\<forall>c\<in>set s. isWhiteSpace c" by (simp add: dropWhile_eq_Nil_conv)
next
  assume "\<forall>c\<in>set s. isWhiteSpace c"
  then have "dropWhile isWhiteSpace s = []" by (simp add: dropWhile_eq_Nil_conv)
  then show "trim s = []" unfolding trim_def trimEnd_def by (simp only: rev.simps dropWhile.simps)
qed

lemma trimEnd_hd:
  assumes "s \<noteq> []" "\<not> isWhiteSpace (hd s)"
  shows "trimEnd s \<noteq> [] \<and> hd (trimEnd s) = hd s"
proof -
  obtain c cs where s: "s = c # cs" using assms(1) by (cases s) auto
  with assms(2) have c: "\<not> isWhiteSpace c" by simp
  have "dropWhile isWhiteSpace (rev cs @ [c]) = dropWhile isWhiteSpace (rev cs) @ [c]"
    using c by (simp add: dropWhile_append3) 
  then show ?thesis using s by (simp add: trimEnd_def)
qed

lemma trim_trimmed:
  assumes "trim s \<noteq> []"
  shows "\<not> isWhiteSpace (hd (trim s)) \<and> \<not> isWhiteSpace (last (trim s))"
proof -
  let ?d = "dropWhile isWhiteSpace s"
  from assms have d: "?d \<noteq> []" unfolding trim_def trimEnd_def by (auto dest: set_dropWhileD)
  then have h: "\<not> isWhiteSpace (hd ?d)" by (rule hd_dropWhile)
  from trimEnd_hd[OF d h] have 1: "\<not> isWhiteSpace (hd (trim s))" using h by (simp add: trim_def)
  let ?r = "dropWhile isWhiteSpace (rev ?d)"
  from assms have r: "?r \<noteq> []" by (simp add: trim_def trimEnd_def)
  then have "\<not> isWhiteSpace (hd ?r)" by (rule hd_dropWhile)
  moreover have "last (trim s) = hd ?r" using r by (simp add: trim_def trimEnd_def last_rev)
  ultimately show ?thesis using 1 by simp
qed

lemma trim_idem: "trim (trim s) = trim s"
proof (cases "trim s = []")
  case True
  have "trim [] = []" by (simp add: trim_def trimEnd_def)
  with True show ?thesis by simp
next
  case False
  from trim_trimmed[OF False] have h: "\<not> isWhiteSpace (hd (trim s))" and l: "\<not> isWhiteSpace (last (trim s))"
    by simp_all
  have 1: "dropWhile isWhiteSpace (trim s) = trim s"
    using False h by (cases "trim s") auto
  have "dropWhile isWhiteSpace (rev (trim s)) = rev (trim s)"
    using False l by (cases "rev (trim s)") (auto simp: last_rev hd_rev)
  then have "trimEnd (trim s) = trim s" by (simp add: trimEnd_def)
  with 1 show ?thesis by (simp add: trim_def[of "trim s"])
qed


lemma split_lf_not_Nil: "split_lf s \<noteq> []"
  by (induction s) (auto split: list.splits)

lemma join_split_lf: "join_lf (split_lf s) = s"
proof (induction s)
  case Nil show ?case by simp
next
  case (Cons c cs)
  obtain r rs where sp: "split_lf cs = r # rs" using split_lf_not_Nil[of cs] by (cases "split_lf cs") auto
  show ?case
  proof (cases "c = 0x000A")
    case True
    then show ?thesis using Cons sp by simp
  next
    case False
    then show ?thesis using Cons sp by (cases rs) simp_all
  qed
qed

lemma split_lf_no_lf: "r \<in> set (split_lf s) \<Longrightarrow> 0x000A \<notin> set r"
proof (induction s arbitrary: r)
  case Nil then show ?case by simp
next
  case (Cons c cs)
  obtain q qs where sp: "split_lf cs = q # qs" using split_lf_not_Nil[of cs] by (cases "split_lf cs") auto
  show ?case
  proof (cases "c = 0x000A")
    case True
    with Cons show ?thesis by auto
  next
    case False
    with Cons.prems sp have "r = c # q \<or> r \<in> set qs" by simp
    then show ?thesis
    proof
      assume "r = c # q"
      moreover have "0x000A \<notin> set q" using Cons.IH[of q] sp by simp
      ultimately show ?thesis using False by auto
    next
      assume "r \<in> set qs"
      then show ?thesis using Cons.IH[of r] sp by simp
    qed
  qed
qed

lemma split_lf_subset: "r \<in> set (split_lf s) \<Longrightarrow> set r \<subseteq> set s"
proof (induction s arbitrary: r)
  case Nil then show ?case by simp
next
  case (Cons c cs)
  obtain q qs where sp: "split_lf cs = q # qs" using split_lf_not_Nil[of cs] by (cases "split_lf cs") auto
  show ?case
  proof (cases "c = 0x000A")
    case True
    with Cons show ?thesis by auto
  next
    case False
    with Cons.prems sp have "r = c # q \<or> r \<in> set qs" by simp
    then show ?thesis
    proof
      assume "r = c # q"
      moreover have "set q \<subseteq> set cs" using Cons.IH[of q] sp by simp
      ultimately show ?thesis by auto
    next
      assume "r \<in> set qs"
      then show ?thesis using Cons.IH[of r] sp by auto
    qed
  qed
qed

lemma unat_digit: "d < 10 \<Longrightarrow> unat (of_nat (48 + d) :: jschar) = 48 + d"
  by (simp add: unat_of_nat del: of_nat_add)

lemma fromDigits_toString: "fromDigits (toString_nat n) = n"
proof (induction n rule: toString_nat.induct)
  case (1 n)
  show ?case
  proof (cases "n < 10")
    case True
    then show ?thesis using unat_digit[of n] by (simp add: toString_nat.simps[of n] fromDigits_def del: of_nat_add)
  next
    case False
    have d: "unat (of_nat (48 + n mod 10) :: jschar) = 48 + n mod 10"
      by (rule unat_digit) simp
    from False 1 have "fromDigits (toString_nat (n div 10)) = n div 10" by simp
    then show ?thesis using False d
      by (simp add: toString_nat.simps[of n] fromDigits_def del: of_nat_add)
  qed
qed

lemma toString_nat_inj: "toString_nat m = toString_nat n \<Longrightarrow> m = n"
  by (metis fromDigits_toString)

lemma length_mapi: "length (mapi f xs) = length xs"
  by (simp add: mapi_def)

lemma nth_mapi: "i < length xs \<Longrightarrow> mapi f xs ! i = f (xs ! i) i"
  by (simp add: mapi_def)


lemma rowExample_rows:
  "toDataset [rowExample] = [\<lparr>pageNumber = 1, content = [[(jsstr ''0'', jsstr ''a'')], [(jsstr ''1'', jsstr ''b'')],
        [(jsstr ''2'', jsstr ''c'')]]\<rparr>]"
  by (simp add: toDataset_def rowExample_def toPageData_def jsstr_def trim_def trimEnd_def isWhiteSpace_def
      mapi_def toString_nat.simps upt_rec)

lemma kept_row:
  assumes "k < length (filter (\<lambda>r. trim r \<noteq> []) ls)"
  shows "trim (filter (\<lambda>r. trim r \<noteq> []) ls ! k) \<noteq> []"
proof -
  have "filter (\<lambda>r. trim r \<noteq> []) ls ! k \<in> set (filter (\<lambda>r. trim r \<noteq> []) ls)"
    using assms by (rule nth_mem)
  then show ?thesis by simp
qed

lemma blank_page_no_rows:
  assumes "\<forall>c\<in>set text. isWhiteSpace c"
  shows "filter (\<lambda>r. trim r \<noteq> []) (split_lf text) = []"
proof -
  have "trim r = []" if "r \<in> set (split_lf text)" for r
    using split_lf_subset[OF that] assms by (auto simp: trim_Nil_iff)
  then show ?thesis by (simp add: filter_empty_conv)
qed

text \<open>
  C3. The formatter gives one page record per page text, numbered from 1. A page text is
  split at its line feeds (joining the pieces with line feeds gives the text back, and no
  piece holds a line feed); the pieces that are empty after trimming are dropped; row
  \<open>k\<close> of the page, counted from 0 over the pieces kept, is the object whose one key is
  the decimal numeral of \<open>k\<close> and whose value is the trimmed piece, which is not empty and
  neither starts nor ends with white space. The formatter is a total function: a page of
  white space only has no rows. The text \<^verbatim>\<open>"a\n\nb\n  \nc"\<close> has the rows
  \<^verbatim>\<open>[{"0":"a"},{"1":"b"},{"2":"c"}]\<close>.
\<close>

theorem formatter_rows:
  "length (toDataset texts) = length texts \<and>
   (\<forall>i<length texts.
      (let page = toDataset texts ! i;
           lines = split_lf (texts ! i);
           kept = filter (\<lambda>r. trim r \<noteq> []) lines
       in pageNumber page = i + 1 \<and>
          join_lf lines = texts ! i \<and> (\<forall>r\<in>set lines. 0x000A \<notin> set r) \<and>
          length (content page) = length kept \<and>
          (\<forall>k<length kept.
             content page ! k = [(toString_nat k, trim (kept ! k))] \<and>
             fromDigits (toString_nat k) = k \<and>
             trim (kept ! k) \<noteq> [] \<and>
             \<not> isWhiteSpace (hd (trim (kept ! k))) \<and>
             \<not> isWhiteSpace (last (trim (kept ! k)))) \<and>
          ((\<forall>c\<in>set (texts ! i). isWhiteSpace c) \<longrightarrow> content page = []))) \<and>
   toDataset [rowExample] =
     [\<lparr>pageNumber = 1,
       content = [[(jsstr ''0'', jsstr ''a'')], [(jsstr ''1'', jsstr ''b'')],
                  [(jsstr ''2'', jsstr ''c'')]]\<rparr>]"
proof (intro conjI allI impI)
  show "length (toDataset texts) = length texts"
    by (simp add: toDataset_def length_mapi)
next
  fix i assume i: "i < length texts"
  let ?kept = "filter (\<lambda>r. trim r \<noteq> []) (split_lf (texts ! i))"
  have page: "toDataset texts ! i = toPageData (texts ! i) i"
    using i by (simp add: toDataset_def nth_mapi)
  have c: "content (toPageData (texts ! i) i)
             = mapi (\<lambda>row rowIndex. [(toString_nat rowIndex, trim row)]) ?kept"
    by (simp add: toPageData_def)
  have rows: "content (toPageData (texts ! i) i) ! k = [(toString_nat k, trim (?kept ! k))] \<and>
       fromDigits (toString_nat k) = k \<and> trim (?kept ! k) \<noteq> [] \<and>
       \<not> isWhiteSpace (hd (trim (?kept ! k))) \<and> \<not> isWhiteSpace (last (trim (?kept ! k)))"
    if k: "k < length ?kept" for k
    using k kept_row[OF k] trim_trimmed[of "?kept ! k"]
    by (simp add: c nth_mapi fromDigits_toString)
  have blank: "content (toPageData (texts ! i) i) = []"
    if "\<forall>c\<in>set (texts ! i). isWhiteSpace c"
    using blank_page_no_rows[OF that] by (simp add: c mapi_def)
  show "let page = toDataset texts ! i;
           lines = split_lf (texts ! i);
           kept = filter (\<lambda>r. trim r \<noteq> []) lines
       in pageNumber page = i + 1 \<and>
          join_lf lines = texts ! i \<and> (\<forall>r\<in>set lines. 0x000A \<notin> set r) \<and>
          length (content page) = length kept \<and>
          (\<forall>k<length kept.
             content page ! k = [(toString_nat k, trim (kept ! k))] \<and>
             fromDigits (toString_nat k) = k \<and>
             trim (kept ! k) \<noteq> [] \<and>
             \<not> isWhiteSpace (hd (trim (kept ! k))) \<and>
             \<not> isWhiteSpace (last (trim (kept ! k)))) \<and>
          ((\<forall>c\<in>set (texts ! i). isWhiteSpace c) \<longrightarrow> content page = [])"
    unfolding Let_def page
    using rows blank split_lf_no_lf[of _ "texts ! i"]
    by (simp add: join_split_lf c length_mapi) (simp add: toPageData_def)
next
  show "toDataset [rowExample] =
     [\<lparr>pageNumber = 1,
       content = [[(jsstr ''0'', jsstr ''a'')], [(jsstr ''1'', jsstr ''b'')],
                  [(jsstr ''2'', jsstr ''c'')]]\<rparr>]"
    by (rule rowExample_rows)
qed

theorem formatter_rows_witness:
  "length (toDataset [rowExample, jsstr ''  '']) = 2 \<and>
   pageNumber (toDataset [rowExample, jsstr ''  ''] ! 1) = 2 \<and>
   content (toDataset [rowExample, jsstr ''  ''] ! 1) = [] \<and>
   content (toDataset [rowExample, jsstr ''  ''] ! 0) ! 2 = [(jsstr ''2'', jsstr ''c'')]"
proof -
  note t = formatter_rows[of "[rowExample, jsstr ''  '']"]
  from t have l: "length (toDataset [rowExample, jsstr ''  '']) = 2" by simp
  from t have "\<forall>i<2. (let page = toDataset [rowExample, jsstr ''  ''] ! i in pageNumber page = i + 1 \<and>
      ((\<forall>c\<in>set ([rowExample, jsstr ''  ''] ! i). isWhiteSpace c) \<longrightarrow> content page = []))"
    by (simp add: Let_def)
  then have p1: "pageNumber (toDataset [rowExample, jsstr ''  ''] ! 1) = 2 \<and>
     content (toDataset [rowExample, jsstr ''  ''] ! 1) = []"
    by (simp add: Let_def jsstr_def isWhiteSpace_def)
  have "content (toDataset [rowExample, jsstr ''  ''] ! 0) ! 2 = [(jsstr ''2'', jsstr ''c'')]"
   by (simp add: toDataset_def rowExample_def toPageData_def jsstr_def trim_def trimEnd_def isWhiteSpace_def
      mapi_def toString_nat.simps upt_rec)
  with l p1 show ?thesis by simp
qed

section \<open>Properties of the text-layer extractor\<close>

lemma joinItems_acc:
  "foldl (\<lambda>text item. case str item of Some s \<Rightarrow> text @ s | None \<Rightarrow> text) acc items
     = acc @ concat (List.map_filter str items)"
  by (induction items arbitrary: acc) (auto simp: map_filter_simps split: option.splits)

lemma joinItems_concat: "joinItems items = concat (List.map_filter str items)"
  by (simp add: joinItems_def joinItems_acc)

lemma trimEnd_suffix:
  "\<exists>ws. s = trimEnd s @ ws \<and> list_all isWhiteSpace ws"
proof -
  have "s = rev (rev s)" by simp
  also have "\<dots> = rev (takeWhile isWhiteSpace (rev s) @ dropWhile isWhiteSpace (rev s))"
    by (simp only: takeWhile_dropWhile_id)
  also have "\<dots> = trimEnd s @ rev (takeWhile isWhiteSpace (rev s))"
    by (simp only: rev_append trimEnd_def)
  finally have "s = trimEnd s @ rev (takeWhile isWhiteSpace (rev s))" .
  moreover have "list_all isWhiteSpace (rev (takeWhile isWhiteSpace (rev s)))"
    by (auto simp: list_all_iff dest: set_takeWhileD)
  ultimately show ?thesis by blast
qed

lemma trimEnd_last: "trimEnd s \<noteq> [] \<Longrightarrow> \<not> isWhiteSpace (last (trimEnd s))"
proof -
  assume a: "trimEnd s \<noteq> []"
  then have n: "dropWhile isWhiteSpace (rev s) \<noteq> []" unfolding trimEnd_def by simp
  then have "\<not> isWhiteSpace (hd (dropWhile isWhiteSpace (rev s)))" by (rule hd_dropWhile)
  moreover have "last (trimEnd s) = hd (dropWhile isWhiteSpace (rev s))"
    using n unfolding trimEnd_def by (simp only: last_rev)
  ultimately show ?thesis by simp
qed

lemma extractLoop_ok:
  "(\<And>j. i \<le> j \<Longrightarrow> j \<le> numPages pdf \<Longrightarrow> pageItems pdf j \<noteq> None) \<Longrightarrow>
   \<exists>texts. extractLoop env pdf i acc = Inr (acc @ texts) \<and> length texts = Suc (numPages pdf) - i \<and>
     (\<forall>k<length texts. \<forall>items. pageItems pdf (i + k) = Some items \<longrightarrow>
         texts ! k = normalizeOrKeep env (trimEnd (joinItems items)))"
proof (induction env pdf i acc rule: extractLoop.induct)
  case (1 env pdf i acc)
  show ?case
  proof (cases "i \<le> numPages pdf")
    case False
    then show ?thesis by (simp add: extractLoop.simps[of env pdf i acc])
  next
    case True
    with 1(2)[of i] obtain items where it: "pageItems pdf i = Some items" by auto
    then obtain page where pg: "getPage pdf i = Inr page" and tc: "getTextContent page = Inr items"
      by (auto simp: pageItems_def split: sum.splits)
    let ?t = "normalizeOrKeep env (trimEnd (joinItems items))"
    have step: "extractLoop env pdf i acc = extractLoop env pdf (Suc i) (acc @ [?t])"
      using True pg tc by (simp add: extractLoop.simps[of env pdf i acc])
    have "\<exists>texts. extractLoop env pdf (Suc i) (acc @ [?t]) = Inr ((acc @ [?t]) @ texts) \<and>
        length texts = Suc (numPages pdf) - Suc i \<and>
        (\<forall>k<length texts. \<forall>items. pageItems pdf (Suc i + k) = Some items \<longrightarrow>
           texts ! k = normalizeOrKeep env (trimEnd (joinItems items)))"
      using 1(1)[OF True pg tc] 1(2) by simp
    then obtain texts where
      r: "extractLoop env pdf (Suc i) (acc @ [?t]) = Inr ((acc @ [?t]) @ texts)" and
      l: "length texts = Suc (numPages pdf) - Suc i" and
      e: "\<forall>k<length texts. \<forall>items. pageItems pdf (Suc i + k) = Some items \<longrightarrow>
           texts ! k = normalizeOrKeep env (trimEnd (joinItems items))"
      by blast
    have "\<forall>k<length (?t # texts). \<forall>items'. pageItems pdf (i + k) = Some items' \<longrightarrow>
           (?t # texts) ! k = normalizeOrKeep env (trimEnd (joinItems items'))"
    proof (intro allI impI)
      fix k items' assume k: "k < length (?t # texts)" and p: "pageItems pdf (i + k) = Some items'"
      show "(?t # texts) ! k = normalizeOrKeep env (trimEnd (joinItems items'))"
      proof (cases k)
        case 0
        with p it show ?thesis by simp
      next
        case (Suc k')
        with k p e show ?thesis by simp
      qed
    qed
    moreover have "length (?t # texts) = Suc (numPages pdf) - i" using l True by simp
    moreover have "extractLoop env pdf i acc = Inr (acc @ (?t # texts))" using step r by simp
    ultimately show ?thesis by blast
  qed
qed

text \<open>
  C8 (amended). For a document of \<open>N\<close> pages whose pages and text contents can all be
  retrieved, the text-layer extractor returns exactly \<open>N\<close> strings. The string of a page
  is made from the concatenation of the string contents of the page's text items, in
  their order and with nothing between them, the items without a string content left out:
  the white space at its end is stripped (what is cut is white space only, and what is
  left does not end in white space), and the result is normalized to NFC, or kept as it
  is when the normalization fails.
\<close>

theorem extractTextWithPdfJs_pages:
  assumes "list_all (\<lambda>i. pageItems pdf i \<noteq> None) [1..<Suc (numPages pdf)]"
  shows "\<exists>texts. extractTextWithPdfJs env pdf = Inr texts \<and> length texts = numPages pdf \<and>
     (\<forall>k<numPages pdf. \<forall>items. pageItems pdf (Suc k) = Some items \<longrightarrow>
        (let joined = concat (List.map_filter str items) in
           texts ! k = (case normalize_NFC env (trimEnd joined) of
                          Inl e \<Rightarrow> trimEnd joined | Inr t \<Rightarrow> t) \<and>
           (\<exists>ws. joined = trimEnd joined @ ws \<and> list_all isWhiteSpace ws) \<and>
           (trimEnd joined = [] \<or> \<not> isWhiteSpace (last (trimEnd joined)))))"
proof -
  have ok: "pageItems pdf j \<noteq> None" if "1 \<le> j" "j \<le> numPages pdf" for j
  proof -
    from that have "j \<in> set [1..<Suc (numPages pdf)]" by auto
    with assms show ?thesis unfolding list_all_iff by blast
  qed
  from extractLoop_ok[of 1 pdf env "[]", OF ok] obtain texts where
    r: "extractLoop env pdf 1 [] = Inr texts" and l: "length texts = numPages pdf" and
    e: "\<forall>k<length texts. \<forall>items. pageItems pdf (1 + k) = Some items \<longrightarrow>
         texts ! k = normalizeOrKeep env (trimEnd (joinItems items))"
    by auto
  have "\<forall>k<numPages pdf. \<forall>items. pageItems pdf (Suc k) = Some items \<longrightarrow>
        (let joined = concat (List.map_filter str items) in
           texts ! k = (case normalize_NFC env (trimEnd joined) of
                          Inl e \<Rightarrow> trimEnd joined | Inr t \<Rightarrow> t) \<and>
           (\<exists>ws. joined = trimEnd joined @ ws \<and> list_all isWhiteSpace ws) \<and>
           (trimEnd joined = [] \<or> \<not> isWhiteSpace (last (trimEnd joined))))"
  proof (intro allI impI)
    fix k items assume k: "k < numPages pdf" and p: "pageItems pdf (Suc k) = Some items"
    let ?j = "concat (List.map_filter str items)"
    from e l k p have "texts ! k = normalizeOrKeep env (trimEnd ?j)"
      by (simp add: joinItems_concat)
    then have 1: "texts ! k = (case normalize_NFC env (trimEnd ?j) of
                          Inl e \<Rightarrow> trimEnd ?j | Inr t \<Rightarrow> t)"
      by (simp add: normalizeOrKeep_def)
    have 2: "\<exists>ws. ?j = trimEnd ?j @ ws \<and> list_all isWhiteSpace ws" by (rule trimEnd_suffix)
    have 3: "trimEnd ?j = [] \<or> \<not> isWhiteSpace (last (trimEnd ?j))"
      using trimEnd_last[of ?j] by blast
    show "let joined = concat (List.map_filter str items) in
           texts ! k = (case normalize_NFC env (trimEnd joined) of
                          Inl e \<Rightarrow> trimEnd joined | Inr t \<Rightarrow> t) \<and>
           (\<exists>ws. joined = trimEnd joined @ ws \<and> list_all isWhiteSpace ws) \<and>
           (trimEnd joined = [] \<or> \<not> isWhiteSpace (last (trimEnd joined)))"
      unfolding Let_def using 1 2 3 by blast
  qed
  with r l show ?thesis unfolding extractTextWithPdfJs_def by blast
qed

lemma ex_pdf_items:
  "pageItems ex_pdf (Suc 0) =
     Some [TextItem (jsstr ''Hello''), TextMarkedContent, TextItem (jsstr '' '')]"
  "pageItems ex_pdf (Suc 1) = Some []"
  "pageItems ex_pdf (Suc 2) = Some [TextItem (jsstr ''World'')]"
  by (simp_all add: pageItems_def ex_pdf_def ex_page_def)

theorem extractTextWithPdfJs_pages_witness:
  "extractTextWithPdfJs ex_browser ex_pdf = Inr [jsstr ''Hello'', [], jsstr ''World'']"
proof -
  have n: "numPages ex_pdf = 3" by (simp add: ex_pdf_def)
  have u: "[1..<Suc 3] = [Suc 0, Suc 1, Suc 2]" by (simp add: upt_rec)
  have h: "list_all (\<lambda>i. pageItems ex_pdf i \<noteq> None) [1..<Suc (numPages ex_pdf)]"
    unfolding n u by (simp only: list.pred_inject ex_pdf_items) simp
  from extractTextWithPdfJs_pages[OF h, of ex_browser] obtain texts where
    r: "extractTextWithPdfJs ex_browser ex_pdf = Inr texts" and l: "length texts = numPages ex_pdf"
    and e: "\<forall>k<numPages ex_pdf. \<forall>items. pageItems ex_pdf (Suc k) = Some items \<longrightarrow>
        (let joined = concat (List.map_filter str items) in
           texts ! k = (case normalize_NFC ex_browser (trimEnd joined) of
                          Inl e \<Rightarrow> trimEnd joined | Inr t \<Rightarrow> t))"
    by (auto simp: Let_def)
  have nf: "normalize_NFC ex_browser = Inr" by (simp add: ex_browser_def)
  have "texts ! 0 = jsstr ''Hello''"
    using e[rule_format, OF _ ex_pdf_items(1)] n
    by (simp add: nf map_filter_simps Let_def trimEnd_def jsstr_def isWhiteSpace_def)
  moreover have "texts ! 1 = []"
    using e[rule_format, OF _ ex_pdf_items(2)] n
    by (simp add: nf map_filter_simps Let_def trimEnd_def)
  moreover have "texts ! 2 = jsstr ''World''"
    using e[rule_format, OF _ ex_pdf_items(3)] n
    by (simp add: nf map_filter_simps Let_def trimEnd_def jsstr_def isWhiteSpace_def)
  moreover from l n have "length texts = 3" by simp
  ultimately have "texts = [jsstr ''Hello'', [], jsstr ''World'']"
    by (cases texts; cases "tl texts"; cases "tl (tl texts)") auto
  with r show ?thesis by simp
qed

text \<open>
  When the text content of a page cannot be retrieved, the extractor returns no strings:
  the error leaves it.
\<close>

theorem extractTextWithPdfJs_counterexample:
  "numPages ex_pdf_unreadable = 2 \<and>
   extractTextWithPdfJs ex_browser ex_pdf_unreadable = Inl (Error (jsstr ''Bad content stream''))"
  by (simp add: extractTextWithPdfJs_def extractLoop.simps ex_pdf_unreadable_def ex_page_def)

section \<open>Properties of the OCR asset loader\<close>

lemma loadWorker_all_fail:
  "map createWorker paths = map Inl errs \<Longrightarrow>
   loadWorker createWorker paths lastError w =
     (None, (if errs = [] then lastError else Some (last errs)),
      w\<lparr>trace := trace w @ map CreateWorker paths\<rparr>)"
proof (induction paths arbitrary: errs lastError w)
  case Nil
  then show ?case by simp
next
  case (Cons p ps)
  then obtain e es where errs: "errs = e # es" and p: "createWorker p = Inl e"
    and ps: "map createWorker ps = map Inl es"
    by (cases errs) auto
  show ?case
    using Cons.IH[OF ps, of "Some e" "call (CreateWorker p) w"] p
    by (simp add: errs call_def)
qed

lemma loadWorker_first_success:
  "map createWorker failed = map Inl errs \<Longrightarrow> createWorker path = Inr worker \<Longrightarrow>
   loadWorker createWorker (failed @ path # rest) lastError w =
     (Some worker, (if errs = [] then lastError else Some (last errs)),
      w\<lparr>trace := trace w @ map CreateWorker (failed @ [path])\<rparr>)"
proof (induction failed arbitrary: errs lastError w)
  case Nil
  then show ?case by (simp add: call_def)
next
  case (Cons p ps)
  then obtain e es where errs: "errs = e # es" and p: "createWorker p = Inl e"
    and ps: "map createWorker ps = map Inl es"
    by (cases errs) auto
  show ?case
    using Cons.IH[OF ps Cons.prems(2), of "Some e" "call (CreateWorker p) w"] p
    by (simp add: errs call_def)
qed

text \<open>
  The loader tries the locations of its list in order. When a location succeeds after
  the ones before it have failed, the worker created there is the result and the
  locations after it are not tried: the calls made are those for the failed locations
  and the successful one, in order. When every location fails, every one has been
  tried, in order, no worker is left, and the OCR run fails with an error whose message
  ends with the message of the value caught at the last location, or with
  \<^verbatim>\<open>undefined\<close> when that value has no message.
\<close>

lemma loadWorker_ordered_fallback:
  "(map createWorker failed = map Inl errs \<and> createWorker path = Inr worker \<longrightarrow>
      (\<exists>lastError.
         loadWorker createWorker (failed @ path # rest) None w =
           (Some worker, lastError,
            w\<lparr>trace := trace w @ map CreateWorker (failed @ [path])\<rparr>))) \<and>
   (map createWorker paths = map Inl errs \<longrightarrow>
      loadWorker createWorker paths None w =
        (None, (if errs = [] then None else Some (last errs)),
         w\<lparr>trace := trace w @ map CreateWorker paths\<rparr>)) \<and>
   (import_tesseract env = Inr createWorker \<and> map createWorker langPaths = map Inl errs \<longrightarrow>
      runMyanmarOcrOnPdf env pdf updateStatus w =
        (Inl (Error (jsstr ''Failed to load Myanmar language data for OCR. Last error: '' @
                     (case message (last errs) of
                        None \<Rightarrow> jsstr ''undefined'' | Some m \<Rightarrow> m))),
         w\<lparr>trace := trace w @ ImportTesseract # map CreateWorker langPaths\<rparr>))"
proof (intro conjI impI)
  assume "map createWorker failed = map Inl errs \<and> createWorker path = Inr worker"
  then show "\<exists>lastError.
         loadWorker createWorker (failed @ path # rest) None w =
           (Some worker, lastError,
            w\<lparr>trace := trace w @ map CreateWorker (failed @ [path])\<rparr>)"
    using loadWorker_first_success[of createWorker failed errs path worker rest None w] by blast
next
  assume "map createWorker paths = map Inl errs"
  then show "loadWorker createWorker paths None w =
        (None, (if errs = [] then None else Some (last errs)),
         w\<lparr>trace := trace w @ map CreateWorker paths\<rparr>)"
    by (rule loadWorker_all_fail)
next
  assume a: "import_tesseract env = Inr createWorker \<and> map createWorker langPaths = map Inl errs"
  then have m: "map createWorker langPaths = map Inl errs" by simp
  then have "length errs = length langPaths" by (metis length_map)
  then have ne: "errs \<noteq> []" by (auto simp: langPaths_def)
  show "runMyanmarOcrOnPdf env pdf updateStatus w =
        (Inl (Error (jsstr ''Failed to load Myanmar language data for OCR. Last error: '' @
                     (case message (last errs) of
                        None \<Rightarrow> jsstr ''undefined'' | Some m \<Rightarrow> m))),
         w\<lparr>trace := trace w @ ImportTesseract # map CreateWorker langPaths\<rparr>)"
    using a ne loadWorker_all_fail[OF m, of None "call ImportTesseract w"]
    by (simp add: runMyanmarOcrOnPdf_def loadFailure_def call_def)
qed

text \<open>
  C4. The loader tries the locations in order and, when all fail, leaves no worker and
  fails with one error. When the values caught are \<^verbatim>\<open>Error\<close> objects, the message of the
  error carries the message of the last of them. When the OCR engine rejects with
  strings, the three locations are still tried in order and no worker is left, but the
  error carries nothing of the last value caught, the string for the third location: its
  message ends with \<^verbatim>\<open>undefined\<close>.
\<close>

theorem loadWorker_last_error_lost:
  "ex_createWorker_unreachable (langPaths ! 2)
     = Inl (Thrown (jsstr ''Error: Network error while fetching '' @ langPaths ! 2)) \<and>
   fst (runMyanmarOcrOnPdf ex_browser_unreachable ex_pdf showStatus ex_world)
     = Inl (Error (jsstr ''Failed to load Myanmar language data for OCR. Last error: undefined'')) \<and>
   trace (snd (runMyanmarOcrOnPdf ex_browser_unreachable ex_pdf showStatus ex_world))
     = [ImportTesseract, CreateWorker (langPaths ! 0), CreateWorker (langPaths ! 1),
        CreateWorker (langPaths ! 2)] \<and>
   fst (runMyanmarOcrOnPdf ex_browser_offline ex_pdf showStatus ex_world)
     = Inl (Error (jsstr ''Failed to load Myanmar language data for OCR. Last error: '' @
                   jsstr ''Network error: '' @ langPaths ! 2))"
  by (simp add: runMyanmarOcrOnPdf_def loadFailure_def call_def langPaths_def
      ex_browser_unreachable_def ex_createWorker_unreachable_def ex_browser_offline_def
      ex_world_def jsstr_def)

section \<open>Evaluation of the definitions\<close>

lemmas state_defs =
  call_def setFile_def setPdfData_def setCurrentPage_def setIsLoading_def setError_def
  onPdfProcessed_def resetState_def showStatus_def

lemmas string_defs = jsstr_def trim_def trimEnd_def isWhiteSpace_def

lemmas run_defs =
  handleFileChange_def processPdfFile_def processPdfFile_start_def processPdfFile_try_def
  processPdfFile_finish_def extractTextWithPdfJs_def extractLoop.simps joinItems_def
  normalizeOrKeep_def hasMyanmarText_def myanmarRegex_test_def runMyanmarOcrOnPdf_def
  ocrLoop.simps recognizePage_def langPaths_def Let_def split_def

lemmas example_defs =
  ex_page_def ex_pdf_def ex_pdf_unreadable_def ex_pdf_scanned_def ex_pdf_undrawable_def
  ex_worker_def ex_browser_def ex_browser_offline_def ex_world_def ex_file_def

section \<open>Properties of the OCR run\<close>

lemma ocrLoop_trace:
  "\<exists>recs. trace (snd (ocrLoop env pdf worker updateStatus i acc w)) = trace w @ recs \<and>
          list_all isRecognize recs"
proof (induction env pdf worker updateStatus i acc w rule: ocrLoop.induct)
  case (1 env pdf worker updateStatus i acc w)
  let ?w1 = "w\<lparr>ui := updateStatus (ocrStatus i (numPages pdf)) (ui w)\<rparr>"
  have t1: "trace ?w1 = trace w" by simp
  show ?case
  proof (cases "i \<le> numPages pdf")
    case False
    then show ?thesis by (simp add: ocrLoop.simps[of env pdf worker updateStatus i acc w])
  next
    case True
    note le = this
    show ?thesis
    proof (cases "getPage pdf i")
      case (Inl e)
      with le show ?thesis
        by (simp add: ocrLoop.simps[of env pdf worker updateStatus i acc w])
    next
      case (Inr page)
      note pg = this
      show ?thesis
      proof (cases "getContext_2d env i")
        case False
        have "ocrLoop env pdf worker updateStatus i acc w
               = ocrLoop env pdf worker updateStatus (Suc i) (acc @ [[]]) ?w1"
          using le pg False by (simp add: ocrLoop.simps[of env pdf worker updateStatus i acc w])
        moreover from 1(1)[OF le refl pg] False
        have "\<exists>recs. trace (snd (ocrLoop env pdf worker updateStatus (Suc i) (acc @ [[]]) ?w1))
                 = trace ?w1 @ recs \<and> list_all isRecognize recs" by simp
        ultimately show ?thesis by (simp only: t1)
      next
        case True
        note ctx = this
        show ?thesis
        proof (cases "render page")
          case (Some e)
          with le pg ctx show ?thesis
            by (simp add: ocrLoop.simps[of env pdf worker updateStatus i acc w])
        next
          case None
          obtain tx called where rp: "recognizePage env worker page = (tx, called)"
            by (cases "recognizePage env worker page") auto
          let ?w2 = "if called then call (Recognize i) ?w1 else ?w1"
          have step: "ocrLoop env pdf worker updateStatus i acc w
               = ocrLoop env pdf worker updateStatus (Suc i) (acc @ [tx]) ?w2"
            using le pg ctx None rp
            by (simp add: ocrLoop.simps[of env pdf worker updateStatus i acc w])
          from 1(2)[OF le refl pg _ None rp[symmetric]] ctx
          obtain recs where r: "trace (snd (ocrLoop env pdf worker updateStatus (Suc i) (acc @ [tx]) ?w2))
                 = trace ?w2 @ recs" and a: "list_all isRecognize recs"
            by auto
          have "trace ?w2 = trace w @ (if called then [Recognize i] else [])"
            by (simp add: call_def)
          with r have "trace (snd (ocrLoop env pdf worker updateStatus (Suc i) (acc @ [tx]) ?w2))
                 = trace w @ ((if called then [Recognize i] else []) @ recs)" by simp
          moreover have "list_all isRecognize ((if called then [Recognize i] else []) @ recs)"
            using a by simp
          ultimately show ?thesis unfolding step by blast
        qed
      qed
    qed
  qed
qed

lemma ocrLoop_ok:
  "(\<And>j. i \<le> j \<Longrightarrow> j \<le> numPages pdf \<Longrightarrow> pageRenders env pdf j) \<Longrightarrow>
   \<exists>texts. fst (ocrLoop env pdf worker updateStatus i acc w) = Inr (acc @ texts) \<and>
     length texts = Suc (numPages pdf) - i \<and>
     (\<forall>k<length texts. \<forall>page. getPage pdf (i + k) = Inr page \<longrightarrow>
        texts ! k = (if getContext_2d env (i + k) then fst (recognizePage env worker page) else []))"
proof (induction env pdf worker updateStatus i acc w rule: ocrLoop.induct)
  case (1 env pdf worker updateStatus i acc w)
  let ?w1 = "w\<lparr>ui := updateStatus (ocrStatus i (numPages pdf)) (ui w)\<rparr>"
  let ?P = "\<lambda>i texts. \<forall>k<length texts. \<forall>page. getPage pdf (i + k) = Inr page \<longrightarrow>
        texts ! k = (if getContext_2d env (i + k) then fst (recognizePage env worker page) else [])"
  show ?case
  proof (cases "i \<le> numPages pdf")
    case False
    then show ?thesis by (simp add: ocrLoop.simps[of env pdf worker updateStatus i acc w])
  next
    case True
    note le = this
    from 1(3)[of i] le obtain page where pg: "getPage pdf i = Inr page"
      and rd: "getContext_2d env i \<Longrightarrow> render page = None"
      by (auto simp: pageRenders_def split: sum.splits if_splits)
    obtain tx called where rp: "recognizePage env worker page = (tx, called)"
      by (cases "recognizePage env worker page") auto
    let ?t = "if getContext_2d env i then tx else []"
    let ?w2 = "if getContext_2d env i then (if called then call (Recognize i) ?w1 else ?w1) else ?w1"
    have step: "ocrLoop env pdf worker updateStatus i acc w
               = ocrLoop env pdf worker updateStatus (Suc i) (acc @ [?t]) ?w2"
      using le pg rd rp by (simp add: ocrLoop.simps[of env pdf worker updateStatus i acc w])
    have later: "\<And>j. Suc i \<le> j \<Longrightarrow> j \<le> numPages pdf \<Longrightarrow> pageRenders env pdf j"
      using 1(3) by simp
    have "\<exists>texts. fst (ocrLoop env pdf worker updateStatus (Suc i) (acc @ [?t]) ?w2)
              = Inr ((acc @ [?t]) @ texts) \<and>
            length texts = Suc (numPages pdf) - Suc i \<and> ?P (Suc i) texts"
    proof (cases "getContext_2d env i")
      case False
      from 1(1)[OF le refl pg _ later] False show ?thesis by simp
    next
      case True
      from 1(2)[OF le refl pg _ rd[OF True] rp[symmetric] later] True show ?thesis by simp
    qed
    then obtain texts where
      r: "fst (ocrLoop env pdf worker updateStatus (Suc i) (acc @ [?t]) ?w2)
              = Inr ((acc @ [?t]) @ texts)" and
      l: "length texts = Suc (numPages pdf) - Suc i" and e: "?P (Suc i) texts"
      by blast
    have "?P i (?t # texts)"
    proof (intro allI impI)
      fix k page' assume k: "k < length (?t # texts)" and p: "getPage pdf (i + k) = Inr page'"
      show "(?t # texts) ! k =
          (if getContext_2d env (i + k) then fst (recognizePage env worker page') else [])"
      proof (cases k)
        case 0
        with p pg rp show ?thesis by simp
      next
        case (Suc k')
        with k p e show ?thesis by simp
      qed
    qed
    moreover have "length (?t # texts) = Suc (numPages pdf) - i" using l le by simp
    moreover have "fst (ocrLoop env pdf worker updateStatus i acc w) = Inr (acc @ (?t # texts))"
      using step r by simp
    ultimately show ?thesis by blast
  qed
qed

lemma loadWorker_trace:
  "\<exists>tried. trace (snd (snd (loadWorker createWorker paths lastError w)))
            = trace w @ map CreateWorker tried"
proof (induction paths arbitrary: lastError w)
  case Nil
  show ?case by simp
next
  case (Cons p ps)
  show ?case
  proof (cases "createWorker p")
    case (Inr worker)
    have "trace (snd (snd (loadWorker createWorker (p # ps) lastError w)))
         = trace w @ map CreateWorker [p]"
      using Inr by (simp add: call_def)
    then show ?thesis by blast
  next
    case (Inl e)
    from Cons[of "Some e" "call (CreateWorker p) w"] obtain tried where
      "trace (snd (snd (loadWorker createWorker ps (Some e) (call (CreateWorker p) w))))
         = trace (call (CreateWorker p) w) @ map CreateWorker tried" by blast
    then have "trace (snd (snd (loadWorker createWorker (p # ps) lastError w)))
         = trace w @ map CreateWorker (p # tried)"
      using Inl by (simp add: call_def)
    then show ?thesis by blast
  qed
qed

lemma count_Terminate_recs: "list_all isRecognize recs \<Longrightarrow> count_list recs Terminate = 0"
  by (induction recs) auto

lemma count_Terminate_creates: "count_list (map CreateWorker tried) Terminate = 0"
  by (induction tried) auto


text \<open>
  C5. In an OCR run in which a worker was created, \<^verbatim>\<open>worker.terminate\<close> is called exactly
  once, and it is the last call of the run, whether the page loop ends normally or an
  error leaves it: between the creation of the worker and the call there are only calls
  of \<^verbatim>\<open>recognize\<close>.
\<close>

theorem worker_terminated_once:
  assumes "import_tesseract env = Inr createWorker"
    and "fst (loadWorker createWorker langPaths None (call ImportTesseract w)) = Some worker"
  shows "\<exists>r w' tried recs.
           runMyanmarOcrOnPdf env pdf updateStatus w = (r, w') \<and>
           trace w' = trace w @ ImportTesseract # map CreateWorker tried @ recs @ [Terminate] \<and>
           list_all isRecognize recs \<and>
           count_list (trace w') Terminate = Suc (count_list (trace w) Terminate)"
proof -
  obtain lastError w1 where
    lw: "loadWorker createWorker langPaths None (call ImportTesseract w) = (Some worker, lastError, w1)"
    using assms(2) by (cases "loadWorker createWorker langPaths None (call ImportTesseract w)") auto
  obtain tried where t1: "trace w1 = trace (call ImportTesseract w) @ map CreateWorker tried"
    using loadWorker_trace[of createWorker langPaths None "call ImportTesseract w"] lw by auto
  obtain r w2 where ol: "ocrLoop env pdf worker updateStatus 1 [] w1 = (r, w2)"
    by (cases "ocrLoop env pdf worker updateStatus 1 [] w1") auto
  obtain recs where t2: "trace w2 = trace w1 @ recs" and rec: "list_all isRecognize recs"
    using ocrLoop_trace[of env pdf worker updateStatus 1 "[]" w1] ol by auto
  have run: "runMyanmarOcrOnPdf env pdf updateStatus w = (r, call Terminate w2)"
    using assms(1) lw ol by (simp add: runMyanmarOcrOnPdf_def)
  have tr: "trace (call Terminate w2)
              = trace w @ ImportTesseract # map CreateWorker tried @ recs @ [Terminate]"
    using t1 t2 by (simp add: call_def)
  have "count_list (trace (call Terminate w2)) Terminate = Suc (count_list (trace w) Terminate)"
    unfolding tr using count_Terminate_recs[OF rec] count_Terminate_creates[of tried]
    by (simp add: count_list_append)
  with run tr rec show ?thesis by blast
qed

lemma ex_browser_worker:
  "\<exists>createWorker. import_tesseract ex_browser = Inr createWorker \<and>
     fst (loadWorker createWorker langPaths None (call ImportTesseract w)) = Some ex_worker"
  by (simp add: ex_browser_def langPaths_def jsstr_def)

lemma ex_undrawable_fails:
  "fst (runMyanmarOcrOnPdf ex_browser ex_pdf_undrawable showStatus ex_world)
     = Inl (Error (jsstr ''Rendering cancelled''))"
  by (simp add: runMyanmarOcrOnPdf_def ex_browser_def langPaths_def jsstr_def ocrLoop.simps
      ex_pdf_undrawable_def ex_page_def recognizePage_def ex_worker_def normalizeOrKeep_def
      split_def Let_def)

theorem worker_terminated_once_witness:
  "count_list (trace (snd (runMyanmarOcrOnPdf ex_browser ex_pdf_scanned showStatus ex_world)))
     Terminate = 1 \<and>
   isl (fst (runMyanmarOcrOnPdf ex_browser ex_pdf_undrawable showStatus ex_world)) \<and>
   count_list (trace (snd (runMyanmarOcrOnPdf ex_browser ex_pdf_undrawable showStatus ex_world)))
     Terminate = 1"
proof -
  obtain createWorker where i: "import_tesseract ex_browser = Inr createWorker"
    and l: "fst (loadWorker createWorker langPaths None (call ImportTesseract ex_world))
              = Some ex_worker"
    using ex_browser_worker[of ex_world] by blast
  have e: "count_list (trace ex_world) Terminate = 0" by (simp add: ex_world_def)
  from worker_terminated_once[OF i l, of ex_pdf_scanned showStatus] e
  have 1: "count_list (trace (snd (runMyanmarOcrOnPdf ex_browser ex_pdf_scanned showStatus ex_world)))
     Terminate = 1" by auto
  from worker_terminated_once[OF i l, of ex_pdf_undrawable showStatus] e
  have 2: "count_list (trace (snd (runMyanmarOcrOnPdf ex_browser ex_pdf_undrawable showStatus ex_world)))
     Terminate = 1" by auto
  from 1 2 ex_undrawable_fails show ?thesis by simp
qed

lemma toPageData_empty: "content (toPageData [] k) = []"
  by (simp add: toPageData_def trim_def trimEnd_def mapi_def)

text \<open>
  In an OCR run with a worker, on a document of \<open>N\<close> pages that can all be
  retrieved and rendered, the run returns \<open>N\<close> page texts and the dataset has \<open>N\<close> page
  records, numbered from 1. A page whose canvas has no 2D context, whose image cannot be
  encoded, or whose recognition fails has the empty string as its text and no rows in its
  record; the text of any other page is the normalized text recognized on its own image,
  and its record is the one formatted from that text.
\<close>

lemma ocr_page_failure_isolated:
  assumes "import_tesseract env = Inr createWorker"
    and "fst (loadWorker createWorker langPaths None (call ImportTesseract w)) = Some worker"
    and "list_all (pageRenders env pdf) [1..<Suc (numPages pdf)]"
  shows "\<exists>texts w'.
     runMyanmarOcrOnPdf env pdf updateStatus w = (Inr texts, w') \<and>
     length texts = numPages pdf \<and> length (toDataset texts) = numPages pdf \<and>
     (\<forall>k<numPages pdf. \<forall>page. getPage pdf (Suc k) = Inr page \<longrightarrow>
        toDataset texts ! k = toPageData (texts ! k) k \<and>
        pageNumber (toDataset texts ! k) = Suc k \<and>
        (\<not> getContext_2d env (Suc k) \<longrightarrow>
           texts ! k = [] \<and> content (toDataset texts ! k) = []) \<and>
        (getContext_2d env (Suc k) \<longrightarrow>
           (\<forall>e. toDataURL page = Inl e \<longrightarrow>
              texts ! k = [] \<and> content (toDataset texts ! k) = []) \<and>
           (\<forall>img e. toDataURL page = Inr img \<and> recognize worker img = Inl e \<longrightarrow>
              texts ! k = [] \<and> content (toDataset texts ! k) = []) \<and>
           (\<forall>img result. toDataURL page = Inr img \<and> recognize worker img = Inr result \<longrightarrow>
              texts ! k = normalizeOrKeep env (case result of None \<Rightarrow> [] | Some t \<Rightarrow> t))))"
proof -
  obtain lastError w1 where
    lw: "loadWorker createWorker langPaths None (call ImportTesseract w) = (Some worker, lastError, w1)"
    using assms(2) by (cases "loadWorker createWorker langPaths None (call ImportTesseract w)") auto
  have ok: "pageRenders env pdf j" if "1 \<le> j" "j \<le> numPages pdf" for j
  proof -
    from that have "j \<in> set [1..<Suc (numPages pdf)]" by auto
    with assms(3) show ?thesis unfolding list_all_iff by blast
  qed
  from ocrLoop_ok[of 1 pdf env worker updateStatus "[]" w1, OF ok] obtain texts where
    r: "fst (ocrLoop env pdf worker updateStatus 1 [] w1) = Inr texts" and
    l: "length texts = numPages pdf" and
    e: "\<forall>k<length texts. \<forall>page. getPage pdf (1 + k) = Inr page \<longrightarrow>
        texts ! k = (if getContext_2d env (1 + k) then fst (recognizePage env worker page) else [])"
    by auto
  obtain w2 where ol: "ocrLoop env pdf worker updateStatus 1 [] w1 = (Inr texts, w2)"
    using r by (cases "ocrLoop env pdf worker updateStatus 1 [] w1") auto
  have run: "runMyanmarOcrOnPdf env pdf updateStatus w = (Inr texts, call Terminate w2)"
    using assms(1) lw ol by (simp add: runMyanmarOcrOnPdf_def)
  have pages: "toDataset texts ! k = toPageData (texts ! k) k \<and>
        pageNumber (toDataset texts ! k) = Suc k \<and>
        (\<not> getContext_2d env (Suc k) \<longrightarrow>
           texts ! k = [] \<and> content (toDataset texts ! k) = []) \<and>
        (getContext_2d env (Suc k) \<longrightarrow>
           (\<forall>e. toDataURL page = Inl e \<longrightarrow>
              texts ! k = [] \<and> content (toDataset texts ! k) = []) \<and>
           (\<forall>img e. toDataURL page = Inr img \<and> recognize worker img = Inl e \<longrightarrow>
              texts ! k = [] \<and> content (toDataset texts ! k) = []) \<and>
           (\<forall>img result. toDataURL page = Inr img \<and> recognize worker img = Inr result \<longrightarrow>
              texts ! k = normalizeOrKeep env (case result of None \<Rightarrow> [] | Some t \<Rightarrow> t)))"
    if k: "k < numPages pdf" and p: "getPage pdf (Suc k) = Inr page" for k page
  proof -
    have d: "toDataset texts ! k = toPageData (texts ! k) k"
      using k l by (simp add: toDataset_def nth_mapi)
    have n: "pageNumber (toDataset texts ! k) = Suc k"
      by (simp add: d toPageData_def)
    have t: "texts ! k = (if getContext_2d env (Suc k) then fst (recognizePage env worker page) else [])"
      using e k l p by simp
    have c: "content (toDataset texts ! k) = []" if "texts ! k = []"
      using that by (simp add: d toPageData_empty)
    show ?thesis
      using d n t c by (auto simp: recognizePage_def)
  qed
  have "length (toDataset texts) = numPages pdf" using l by (simp add: toDataset_def length_mapi)
  with run l pages show ?thesis by blast
qed

lemma ex_scanned_pages:
  "getPage ex_pdf_scanned (Suc 0) = Inr (ex_page [] (jsstr ''1''))"
  "getPage ex_pdf_scanned (Suc 1) =
     Inr \<lparr>getTextContent = Inr [], render = None,
          toDataURL = Inl (Error (jsstr ''Canvas is too large''))\<rparr>"
  "getPage ex_pdf_scanned (Suc 2) = Inr (ex_page [] (jsstr ''3''))"
  by (simp_all add: ex_pdf_scanned_def)

lemma ocr_page_failure_isolated_example:
  "fst (runMyanmarOcrOnPdf ex_browser ex_pdf_scanned showStatus ex_world)
     = Inr [jsstr ''text1'', [], jsstr ''text3''] \<and>
   map content (toDataset [jsstr ''text1'', [], jsstr ''text3''])
     = [[[(jsstr ''0'', jsstr ''text1'')]], [], [[(jsstr ''0'', jsstr ''text3'')]]]"
proof -
  obtain createWorker where i: "import_tesseract ex_browser = Inr createWorker"
    and l: "fst (loadWorker createWorker langPaths None (call ImportTesseract ex_world))
              = Some ex_worker"
    using ex_browser_worker[of ex_world] by blast
  have n: "numPages ex_pdf_scanned = 3" by (simp add: ex_pdf_scanned_def)
  have u: "[1..<Suc 3] = [Suc 0, Suc 1, Suc 2]" by (simp add: upt_rec)
  have c: "getContext_2d ex_browser j" for j by (simp add: ex_browser_def)
  have pr: "pageRenders ex_browser ex_pdf_scanned (Suc 0)"
    "pageRenders ex_browser ex_pdf_scanned (Suc 1)" "pageRenders ex_browser ex_pdf_scanned (Suc 2)"
    by (simp_all add: pageRenders_def ex_pdf_scanned_def ex_page_def)
  have h: "list_all (pageRenders ex_browser ex_pdf_scanned) [1..<Suc (numPages ex_pdf_scanned)]"
    unfolding n u by (simp only: list.pred_inject pr)
  from ocr_page_failure_isolated[OF i l h, of showStatus] obtain texts w' where
    r: "runMyanmarOcrOnPdf ex_browser ex_pdf_scanned showStatus ex_world = (Inr texts, w')" and
    len: "length texts = numPages ex_pdf_scanned" and
    e: "\<forall>k<numPages ex_pdf_scanned. \<forall>page. getPage ex_pdf_scanned (Suc k) = Inr page \<longrightarrow>
        (getContext_2d ex_browser (Suc k) \<longrightarrow>
           (\<forall>e. toDataURL page = Inl e \<longrightarrow> texts ! k = []) \<and>
           (\<forall>img result. toDataURL page = Inr img \<and> recognize ex_worker img = Inr result \<longrightarrow>
              texts ! k = normalizeOrKeep ex_browser (case result of None \<Rightarrow> [] | Some t \<Rightarrow> t)))"
    by blast
  have nf: "normalizeOrKeep ex_browser t = t" for t
    by (simp add: normalizeOrKeep_def ex_browser_def)
  have "texts ! 0 = jsstr ''text1''"
    using e[rule_format, OF _ ex_scanned_pages(1) c, THEN conjunct2, rule_format,
            of "jsstr ''1''" "Some (jsstr ''text1'')"] n
    by (simp add: nf ex_page_def ex_worker_def jsstr_def)
  moreover have "texts ! 1 = []"
    using e[rule_format, OF _ ex_scanned_pages(2) c, THEN conjunct1, rule_format,
            of "Error (jsstr ''Canvas is too large'')"] n
    by simp
  moreover have "texts ! 2 = jsstr ''text3''"
    using e[rule_format, OF _ ex_scanned_pages(3) c, THEN conjunct2, rule_format,
            of "jsstr ''3''" "Some (jsstr ''text3'')"] n
    by (simp add: nf ex_page_def ex_worker_def jsstr_def)
  moreover from len n have "length texts = 3" by simp
  ultimately have "texts = [jsstr ''text1'', [], jsstr ''text3'']"
    by (cases texts; cases "tl texts"; cases "tl (tl texts)") auto
  moreover have "map content (toDataset [jsstr ''text1'', [], jsstr ''text3''])
     = [[[(jsstr ''0'', jsstr ''text1'')]], [], [[(jsstr ''0'', jsstr ''text3'')]]]"
    by (simp add: toDataset_def toPageData_def mapi_def upt_rec toString_nat.simps string_defs)
  ultimately show ?thesis using r by simp
qed

text \<open>
  C2. On a document of three pages whose second page cannot be rendered, the failure is
  not caught for that page: the error leaves the page loop, the OCR run fails, the
  component shows the failure message and holds no data, and the callback is called
  with no dataset but the empty one of the reset. On the same three pages with the
  failure one step later, the image of the second page not encodable, the failure is
  caught: the run returns three page texts, the second one empty.
\<close>

theorem ocr_render_failure_aborts_run:
  "numPages ex_pdf_undrawable = 3 \<and>
   fst (runMyanmarOcrOnPdf ex_browser ex_pdf_undrawable showStatus ex_world)
     = Inl (Error (jsstr ''Rendering cancelled'')) \<and>
   pdfData (ui (handleFileChange ex_browser (Some (ex_file ex_pdf_undrawable)) ex_world)) = None \<and>
   error (ui (handleFileChange ex_browser (Some (ex_file ex_pdf_undrawable)) ex_world))
     = Some processFailure \<and>
   filter isCallback
     (trace (handleFileChange ex_browser (Some (ex_file ex_pdf_undrawable)) ex_world))
     = [OnPdfProcessed []] \<and>
   fst (runMyanmarOcrOnPdf ex_browser ex_pdf_scanned showStatus ex_world)
     = Inr [jsstr ''text1'', [], jsstr ''text3'']"
  by (simp add: run_defs state_defs string_defs example_defs)

section \<open>Properties of the orchestrator\<close>

lemma ocrLoop_ui:
  "(\<And>msg u. P u \<Longrightarrow> P (updateStatus msg u)) \<Longrightarrow> P (ui w) \<Longrightarrow>
   P (ui (snd (ocrLoop env pdf worker updateStatus i acc w)))"
proof (induction env pdf worker updateStatus i acc w rule: ocrLoop.induct)
  case (1 env pdf worker updateStatus i acc w)
  let ?w1 = "w\<lparr>ui := updateStatus (ocrStatus i (numPages pdf)) (ui w)\<rparr>"
  have p1: "P (ui ?w1)" using 1(3)[OF 1(4)] by simp
  show ?case
  proof (cases "i \<le> numPages pdf")
    case False
    then show ?thesis using 1(4) by (simp add: ocrLoop.simps[of env pdf worker updateStatus i acc w])
  next
    case True
    note le = this
    show ?thesis
    proof (cases "getPage pdf i")
      case (Inl e)
      with le p1 show ?thesis
        by (simp add: ocrLoop.simps[of env pdf worker updateStatus i acc w])
    next
      case (Inr page)
      note pg = this
      show ?thesis
      proof (cases "getContext_2d env i")
        case False
        have "ocrLoop env pdf worker updateStatus i acc w
               = ocrLoop env pdf worker updateStatus (Suc i) (acc @ [[]]) ?w1"
          using le pg False by (simp add: ocrLoop.simps[of env pdf worker updateStatus i acc w])
        moreover from 1(1)[OF le refl pg _ 1(3) p1] False
        have "P (ui (snd (ocrLoop env pdf worker updateStatus (Suc i) (acc @ [[]]) ?w1)))"
          by simp
        ultimately show ?thesis by simp
      next
        case True
        note ctx = this
        show ?thesis
        proof (cases "render page")
          case (Some e)
          with le pg ctx p1 show ?thesis
            by (simp add: ocrLoop.simps[of env pdf worker updateStatus i acc w])
        next
          case None
          obtain tx called where rp: "recognizePage env worker page = (tx, called)"
            by (cases "recognizePage env worker page") auto
          let ?w2 = "if called then call (Recognize i) ?w1 else ?w1"
          have step: "ocrLoop env pdf worker updateStatus i acc w
               = ocrLoop env pdf worker updateStatus (Suc i) (acc @ [tx]) ?w2"
            using le pg ctx None rp
            by (simp add: ocrLoop.simps[of env pdf worker updateStatus i acc w])
          have p2: "P (ui ?w2)" using p1 by (simp add: call_def)
          from 1(2)[OF le refl pg _ None rp[symmetric] 1(3) p2] ctx
          show ?thesis unfolding step by simp
        qed
      qed
    qed
  qed
qed

lemma loadWorker_ui: "ui (snd (snd (loadWorker createWorker paths lastError w))) = ui w"
  by (induction paths arbitrary: lastError w) (auto simp: call_def split: sum.splits)

lemma run_trace:
  "\<exists>evs. trace (snd (runMyanmarOcrOnPdf env pdf updateStatus w)) = trace w @ ImportTesseract # evs \<and>
         list_all (\<lambda>e. \<not> isCallback e) evs"
proof (cases "import_tesseract env")
  case (Inl e)
  then have "trace (snd (runMyanmarOcrOnPdf env pdf updateStatus w)) = trace w @ ImportTesseract # []"
    by (simp add: runMyanmarOcrOnPdf_def call_def)
  then show ?thesis by force
next
  case (Inr createWorker)
  obtain wk lastError w1 where
    lw: "loadWorker createWorker langPaths None (call ImportTesseract w) = (wk, lastError, w1)"
    by (cases "loadWorker createWorker langPaths None (call ImportTesseract w)") auto
  obtain tried where t1: "trace w1 = trace w @ ImportTesseract # map CreateWorker tried"
    using loadWorker_trace[of createWorker langPaths None "call ImportTesseract w"] lw
    by (auto simp: call_def)
  have c: "list_all (\<lambda>e. \<not> isCallback e) (map CreateWorker tried)"
    by (simp add: list_all_iff)
  show ?thesis
  proof (cases wk)
    case None
    then have "snd (runMyanmarOcrOnPdf env pdf updateStatus w) = w1"
      using Inr lw by (simp add: runMyanmarOcrOnPdf_def)
    with t1 c show ?thesis by auto
  next
    case (Some worker)
    obtain r w2 where ol: "ocrLoop env pdf worker updateStatus 1 [] w1 = (r, w2)"
      by (cases "ocrLoop env pdf worker updateStatus 1 [] w1") auto
    obtain recs where t2: "trace w2 = trace w1 @ recs" and rec: "list_all isRecognize recs"
      using ocrLoop_trace[of env pdf worker updateStatus 1 "[]" w1] ol by auto
    have "snd (runMyanmarOcrOnPdf env pdf updateStatus w) = call Terminate w2"
      using Inr lw Some ol by (simp add: runMyanmarOcrOnPdf_def)
    then have "trace (snd (runMyanmarOcrOnPdf env pdf updateStatus w))
        = trace w @ ImportTesseract # (map CreateWorker tried @ recs @ [Terminate])"
      using t1 t2 by (simp add: call_def)
    moreover have "list_all (\<lambda>e. \<not> isCallback e) recs"
      using rec by (induction recs) (auto elim: isRecognize.elims)
    then have "list_all (\<lambda>e. \<not> isCallback e) (map CreateWorker tried @ recs @ [Terminate])"
      using c by simp
    ultimately show ?thesis by blast
  qed
qed

lemma run_ui:
  assumes "\<And>msg u. P u \<Longrightarrow> P (updateStatus msg u)" "P (ui w)"
  shows "P (ui (snd (runMyanmarOcrOnPdf env pdf updateStatus w)))"
proof (cases "import_tesseract env")
  case (Inl e)
  then show ?thesis using assms(2) by (simp add: runMyanmarOcrOnPdf_def call_def)
next
  case (Inr createWorker)
  obtain wk lastError w1 where
    lw: "loadWorker createWorker langPaths None (call ImportTesseract w) = (wk, lastError, w1)"
    by (cases "loadWorker createWorker langPaths None (call ImportTesseract w)") auto
  have u1: "ui w1 = ui w"
    using loadWorker_ui[of createWorker langPaths None "call ImportTesseract w"] lw
    by (simp add: call_def)
  show ?thesis
  proof (cases wk)
    case None
    then show ?thesis using Inr lw u1 assms(2) by (simp add: runMyanmarOcrOnPdf_def)
  next
    case (Some worker)
    obtain r w2 where ol: "ocrLoop env pdf worker updateStatus 1 [] w1 = (r, w2)"
      by (cases "ocrLoop env pdf worker updateStatus 1 [] w1") auto
    have "P (ui w2)"
      using ocrLoop_ui[of P updateStatus w1 env pdf worker 1 "[]"] assms u1 ol by simp
    then show ?thesis using Inr lw Some ol by (simp add: runMyanmarOcrOnPdf_def call_def)
  qed
qed

text \<open>
  C1. In a run whose text-layer extraction returned page texts, the texts are accepted
  exactly when some page text is not blank and the script detector finds Myanmar code
  points. When they are accepted, the page texts of the run are the extracted ones and
  the only engine call of the run is the parsing of the document: OCR is not invoked.
  When they are not, the OCR run is invoked, and its outcome, with its page texts,
  replaces the extracted texts.
\<close>

theorem text_layer_accepted_iff:
  assumes "import_pdfjs env = None" and "getDocument selectedFile = Inr pdf"
    and "extractTextWithPdfJs env pdf = Inr texts"
  shows
    "(list_ex (\<lambda>t. trim t \<noteq> []) texts \<and> hasMyanmarText texts \<longrightarrow>
        processPdfFile_try env selectedFile w
          = (Inr (numPages pdf, texts), True, call GetDocument w)) \<and>
     (\<not> (list_ex (\<lambda>t. trim t \<noteq> []) texts \<and> hasMyanmarText texts) \<longrightarrow>
        (\<exists>r w' evs.
           runMyanmarOcrOnPdf env pdf showStatus (setError (Some ocrAdvisory) (call GetDocument w))
             = (r, w') \<and>
           processPdfFile_try env selectedFile w = (map_sum id (Pair (numPages pdf)) r, True, w') \<and>
           trace w' = trace w @ GetDocument # ImportTesseract # evs)) \<and>
     ((trace (snd (snd (processPdfFile_try env selectedFile w))) = trace w @ [GetDocument])
        = (list_ex (\<lambda>t. trim t \<noteq> []) texts \<and> hasMyanmarText texts))"
proof -
  let ?acc = "list_ex (\<lambda>t. trim t \<noteq> []) texts \<and> hasMyanmarText texts"
  let ?w0 = "setError (Some ocrAdvisory) (call GetDocument w)"
  have A: "processPdfFile_try env selectedFile w
          = (Inr (numPages pdf, texts), True, call GetDocument w)" if ?acc
    using assms that by (simp add: processPdfFile_try_def)
  obtain r w' where run: "runMyanmarOcrOnPdf env pdf showStatus ?w0 = (r, w')"
    by (cases "runMyanmarOcrOnPdf env pdf showStatus ?w0") auto
  obtain evs where tr: "trace w' = trace ?w0 @ ImportTesseract # evs"
    using run_trace[of env pdf showStatus ?w0] run by auto
  then have tr': "trace w' = trace w @ GetDocument # ImportTesseract # evs"
    by (simp add: setError_def call_def)
  have B: "processPdfFile_try env selectedFile w = (map_sum id (Pair (numPages pdf)) r, True, w')"
    if "\<not> ?acc"
    using assms that run by (cases r) (auto simp: processPdfFile_try_def)
  have C: "(trace (snd (snd (processPdfFile_try env selectedFile w))) = trace w @ [GetDocument]) = ?acc"
  proof (cases ?acc)
    case True
    then show ?thesis using A by (simp add: call_def)
  next
    case False
    then show ?thesis using B tr' by simp
  qed
  from A B C run tr' show ?thesis by blast
qed

lemma ex_pdf_texts:
  "extractTextWithPdfJs ex_browser ex_pdf = Inr [jsstr ''Hello'', [], jsstr ''World'']"
  by (simp add: extractTextWithPdfJs_def extractLoop.simps joinItems_def normalizeOrKeep_def
      example_defs string_defs)

lemma ex_pdf_myanmar_texts:
  "extractTextWithPdfJs ex_browser ex_pdf_myanmar
     = Inr [[0x1019, 0x103C, 0x1014, 0x103A, 0x1019, 0x102C]]"
  by (simp add: extractTextWithPdfJs_def extractLoop.simps joinItems_def normalizeOrKeep_def
      ex_pdf_myanmar_def example_defs string_defs)

lemma ex_pdf_ocr:
  "fst (runMyanmarOcrOnPdf ex_browser ex_pdf showStatus w)
     = Inr [jsstr ''text1'', jsstr ''text2'', jsstr ''text3'']"
  by (simp add: runMyanmarOcrOnPdf_def ocrLoop.simps recognizePage_def normalizeOrKeep_def
      langPaths_def Let_def split_def example_defs jsstr_def)

theorem text_layer_accepted_iff_witness:
  "processPdfFile_try ex_browser (ex_file ex_pdf_myanmar) ex_world
     = (Inr (1, [[0x1019, 0x103C, 0x1014, 0x103A, 0x1019, 0x102C]]), True,
        call GetDocument ex_world) \<and>
   fst (processPdfFile_try ex_browser (ex_file ex_pdf) ex_world)
     = Inr (3, [jsstr ''text1'', jsstr ''text2'', jsstr ''text3''])"
proof -
  have i: "import_pdfjs ex_browser = None" by (simp add: ex_browser_def)
  have d: "getDocument (ex_file pdf) = Inr pdf" for pdf by (simp add: ex_file_def)
  have a: "list_ex (\<lambda>t. trim t \<noteq> []) [[0x1019, 0x103C, 0x1014, 0x103A, 0x1019, 0x102C]] \<and>
           hasMyanmarText [[0x1019, 0x103C, 0x1014, 0x103A, 0x1019, 0x102C]]"
    by (simp add: hasMyanmarText_def myanmarRegex_test_def string_defs)
  have n: "numPages ex_pdf_myanmar = 1" "numPages ex_pdf = 3"
    by (simp_all add: ex_pdf_myanmar_def ex_pdf_def)
  from text_layer_accepted_iff[OF i d ex_pdf_myanmar_texts, of ex_world] a n
  have 1: "processPdfFile_try ex_browser (ex_file ex_pdf_myanmar) ex_world
     = (Inr (1, [[0x1019, 0x103C, 0x1014, 0x103A, 0x1019, 0x102C]]), True,
        call GetDocument ex_world)"
    by simp
  have r: "\<not> (list_ex (\<lambda>t. trim t \<noteq> []) [jsstr ''Hello'', [], jsstr ''World''] \<and>
           hasMyanmarText [jsstr ''Hello'', [], jsstr ''World''])"
    by (simp add: hasMyanmarText_def myanmarRegex_test_def string_defs)
  from text_layer_accepted_iff[OF i d ex_pdf_texts, of ex_world] r
  obtain ocr w' where
    "runMyanmarOcrOnPdf ex_browser ex_pdf showStatus
        (setError (Some ocrAdvisory) (call GetDocument ex_world)) = (ocr, w')"
    "processPdfFile_try ex_browser (ex_file ex_pdf) ex_world
        = (map_sum id (Pair (numPages ex_pdf)) ocr, True, w')"
    by blast
  then have 2: "fst (processPdfFile_try ex_browser (ex_file ex_pdf) ex_world)
     = Inr (3, [jsstr ''text1'', jsstr ''text2'', jsstr ''text3''])"
    using ex_pdf_ocr[of "setError (Some ocrAdvisory) (call GetDocument ex_world)"] n by simp
  from 1 2 show ?thesis by simp
qed

section \<open>Properties of the file handler\<close>

text \<open>
  C9. A file whose type is not \<^verbatim>\<open>application/pdf\<close>, or whose size is above 20 MiB, is
  rejected before the pipeline runs: an error message is shown, the only call made is
  the callback with the empty dataset (the document is not parsed, no OCR is started),
  and the state is the reset one: no file, no data, not loading.
\<close>

theorem invalid_input_rejected:
  assumes "file_type f \<noteq> jsstr ''application/pdf'' \<or> file_size f > 20 * 1024 * 1024"
  shows "error (ui (handleFileChange env (Some f) w))
           = Some (if file_type f \<noteq> jsstr ''application/pdf''
                   then jsstr ''Please select a valid PDF file.''
                   else jsstr ''File size exceeds 20MB limit. Please select a smaller file.'') \<and>
         file_state (ui (handleFileChange env (Some f) w)) = None \<and>
         pdfData (ui (handleFileChange env (Some f) w)) = None \<and>
         currentPage (ui (handleFileChange env (Some f) w)) = 1 \<and>
         isLoading (ui (handleFileChange env (Some f) w)) = False \<and>
         trace (handleFileChange env (Some f) w) = trace w @ [OnPdfProcessed []]"
  using assms by (auto simp: handleFileChange_def state_defs)

theorem invalid_input_rejected_witness:
  "error (ui (handleFileChange ex_browser (Some ex_file_text) ex_world))
     = Some (jsstr ''Please select a valid PDF file.'') \<and>
   trace (handleFileChange ex_browser (Some ex_file_text) ex_world) = [OnPdfProcessed []] \<and>
   error (ui (handleFileChange ex_browser (Some ex_file_large) ex_world))
     = Some (jsstr ''File size exceeds 20MB limit. Please select a smaller file.'') \<and>
   pdfData (ui (handleFileChange ex_browser (Some ex_file_large) ex_world)) = None \<and>
   trace (handleFileChange ex_browser (Some ex_file_large) ex_world) = [OnPdfProcessed []]"
proof -
  have t: "file_type ex_file_text \<noteq> jsstr ''application/pdf''"
    by (simp add: ex_file_text_def jsstr_def)
  have l: "file_type ex_file_large = jsstr ''application/pdf''"
    "file_size ex_file_large > 20 * 1024 * 1024"
    by (simp_all add: ex_file_large_def)
  have e: "trace ex_world = []" by (simp add: ex_world_def)
  from invalid_input_rejected[of ex_file_text ex_browser ex_world] t e
  have 1: "error (ui (handleFileChange ex_browser (Some ex_file_text) ex_world))
     = Some (jsstr ''Please select a valid PDF file.'') \<and>
     trace (handleFileChange ex_browser (Some ex_file_text) ex_world) = [OnPdfProcessed []]"
    by simp
  from invalid_input_rejected[of ex_file_large ex_browser ex_world] l e
  have 2: "error (ui (handleFileChange ex_browser (Some ex_file_large) ex_world))
     = Some (jsstr ''File size exceeds 20MB limit. Please select a smaller file.'') \<and>
     pdfData (ui (handleFileChange ex_browser (Some ex_file_large) ex_world)) = None \<and>
     trace (handleFileChange ex_browser (Some ex_file_large) ex_world) = [OnPdfProcessed []]"
    by simp
  from 1 2 show ?thesis by simp
qed

lemma try_trace:
  "\<exists>evs. trace (snd (snd (processPdfFile_try env selectedFile w))) = trace w @ evs \<and>
         list_all (\<lambda>e. \<not> isCallback e) evs"
proof (cases "import_pdfjs env")
  case (Some e)
  then have "trace (snd (snd (processPdfFile_try env selectedFile w))) = trace w @ []"
    by (simp add: processPdfFile_try_def)
  then show ?thesis by force
next
  case None
  note imp = this
  have g: "trace (call GetDocument w) = trace w @ [GetDocument]" by (simp add: call_def)
  show ?thesis
  proof (cases "getDocument selectedFile")
    case (Inl e)
    then have "trace (snd (snd (processPdfFile_try env selectedFile w))) = trace w @ [GetDocument]"
      using imp by (simp add: processPdfFile_try_def call_def)
    then show ?thesis by force
  next
    case (Inr pdf)
    note doc = this
    show ?thesis
    proof (cases "extractTextWithPdfJs env pdf")
      case (Inl e)
      then have "trace (snd (snd (processPdfFile_try env selectedFile w))) = trace w @ [GetDocument]"
        using imp doc by (simp add: processPdfFile_try_def call_def)
      then show ?thesis by force
    next
      case (Inr texts)
      note ex = this
      show ?thesis
      proof (cases "list_ex (\<lambda>t. trim t \<noteq> []) texts \<and> hasMyanmarText texts")
        case True
        then have "trace (snd (snd (processPdfFile_try env selectedFile w))) = trace w @ [GetDocument]"
          using imp doc ex by (simp add: processPdfFile_try_def call_def)
        then show ?thesis by force
      next
        case False
        let ?w0 = "setError (Some ocrAdvisory) (call GetDocument w)"
        obtain r w' where run: "runMyanmarOcrOnPdf env pdf showStatus ?w0 = (r, w')"
          by (cases "runMyanmarOcrOnPdf env pdf showStatus ?w0") auto
        obtain evs where tr: "trace w' = trace ?w0 @ ImportTesseract # evs"
          and nc: "list_all (\<lambda>e. \<not> isCallback e) evs"
          using run_trace[of env pdf showStatus ?w0] run by auto
        have "snd (snd (processPdfFile_try env selectedFile w)) = w'"
          using imp doc ex False run by (cases r) (auto simp: processPdfFile_try_def)
        then have "trace (snd (snd (processPdfFile_try env selectedFile w)))
            = trace w @ (GetDocument # ImportTesseract # evs)"
          using tr by (simp add: setError_def call_def)
        moreover have "list_all (\<lambda>e. \<not> isCallback e) (GetDocument # ImportTesseract # evs)"
          using nc by simp
        ultimately show ?thesis by blast
      qed
    qed
  qed
qed

lemma try_ui:
  assumes step: "\<And>msg u. P u \<Longrightarrow> P (u\<lparr>error := msg\<rparr>)" and init: "P (ui w)"
  shows "P (ui (snd (snd (processPdfFile_try env selectedFile w))))"
proof -
  let ?w0 = "setError (Some ocrAdvisory) (call GetDocument w)"
  have g: "P (ui (call GetDocument w))" using init by (simp add: call_def)
  have p0: "P (ui ?w0)" using step[OF init] by (simp add: setError_def call_def)
  have run: "P (ui (snd (runMyanmarOcrOnPdf env pdf showStatus ?w0)))" for pdf
    using run_ui[of P showStatus ?w0 env pdf] step p0 by (simp add: showStatus_def)
  show ?thesis
  proof (cases "import_pdfjs env")
    case (Some e)
    then show ?thesis using init by (simp add: processPdfFile_try_def)
  next
    case None
    note imp = this
    show ?thesis
    proof (cases "getDocument selectedFile")
      case (Inl e)
      then show ?thesis using imp g by (simp add: processPdfFile_try_def)
    next
      case (Inr pdf)
      note doc = this
      show ?thesis
      proof (cases "extractTextWithPdfJs env pdf")
        case (Inl e)
        then show ?thesis using imp doc g by (simp add: processPdfFile_try_def)
      next
        case (Inr texts)
        note ex = this
        show ?thesis
        proof (cases "list_ex (\<lambda>t. trim t \<noteq> []) texts \<and> hasMyanmarText texts")
          case True
          then show ?thesis using imp doc ex g by (simp add: processPdfFile_try_def)
        next
          case False
          obtain r w' where r: "runMyanmarOcrOnPdf env pdf showStatus ?w0 = (r, w')"
            by (cases "runMyanmarOcrOnPdf env pdf showStatus ?w0") auto
          have "snd (snd (processPdfFile_try env selectedFile w)) = w'"
            using imp doc ex False r by (cases r) (auto simp: processPdfFile_try_def)
          then show ?thesis using run[of pdf] r by simp
        qed
      qed
    qed
  qed
qed

lemma try_pdfData:
  "pdfData (ui (snd (snd (processPdfFile_try env selectedFile w)))) = pdfData (ui w)"
  using try_ui[of "\<lambda>u. pdfData u = pdfData (ui w)" w env selectedFile] by simp

lemma page_after_no_callback:
  "list_all (\<lambda>e. \<not> isCallback e) evs \<Longrightarrow> page_after evs p = p"
  unfolding page_after_def
  by (induction evs arbitrary: p) (auto split: event.splits)

lemma page_after_Cons:
  "page_after (OnPdfProcessed data # evs) p = page_after evs (handlePdfProcessed data p)"
  by (simp add: page_after_def)

lemma finish_failed:
  "isLoading (ui (processPdfFile_finish (Inl e) b w)) = False \<and>
   error (ui (processPdfFile_finish (Inl e) b w)) = Some processFailure \<and>
   pdfData (ui (processPdfFile_finish (Inl e) b w)) = pdfData (ui w) \<and>
   trace (processPdfFile_finish (Inl e) b w) = trace w @ (if b then [RevokeObjectURL] else [])"
  by (simp add: processPdfFile_finish_def state_defs)

text \<open>
  C10. A valid file whose document cannot be parsed, or whose text layer is rejected while
  no location of the OCR language data can be loaded, makes the awaited part of the run
  fail. After any run whose awaited part fails, the component is not loading, shows
  the one failure message and holds no data; the callback was called once, with the
  empty dataset, at the reset that starts the run, so the page that receives the
  dataset holds the empty dataset and is idle.
\<close>

theorem failing_run_leaves_no_dataset:
  assumes "file_type f = jsstr ''application/pdf''" and "file_size f \<le> 20 * 1024 * 1024"
  shows
    "(let w0 = processPdfFile_start (setFile (Some f) (resetState w));
          w' = handleFileChange env (Some f) w
      in (import_pdfjs env = None \<and> getDocument f = Inl e \<longrightarrow>
            fst (processPdfFile_try env f w0) = Inl e) \<and>
         (import_pdfjs env = None \<and> getDocument f = Inr pdf \<and>
          extractTextWithPdfJs env pdf = Inr texts \<and>
          \<not> (list_ex (\<lambda>t. trim t \<noteq> []) texts \<and> hasMyanmarText texts) \<and>
          import_tesseract env = Inr createWorker \<and>
          map createWorker langPaths = map Inl errs \<longrightarrow>
            fst (processPdfFile_try env f w0) = Inl (loadFailure (Some (last errs)))) \<and>
         (isl (fst (processPdfFile_try env f w0)) \<longrightarrow>
            isLoading (ui w') = False \<and>
            error (ui w') = Some processFailure \<and>
            pdfData (ui w') = None \<and>
            (\<exists>evs. trace w' = trace w @ OnPdfProcessed [] # evs \<and>
                   list_all (\<lambda>e. \<not> isCallback e) evs \<and>
                   page_after (OnPdfProcessed [] # evs) p
                     = \<lparr>page_pdfData = [], status = Idle\<rparr>)))"
proof -
  let ?w0 = "processPdfFile_start (setFile (Some f) (resetState w))"
  let ?w' = "handleFileChange env (Some f) w"
  have A: "fst (processPdfFile_try env f ?w0) = Inl e"
    if "import_pdfjs env = None \<and> getDocument f = Inl e"
    using that by (simp add: processPdfFile_try_def)
  have B: "fst (processPdfFile_try env f ?w0) = Inl (loadFailure (Some (last errs)))"
    if b: "import_pdfjs env = None \<and> getDocument f = Inr pdf \<and>
          extractTextWithPdfJs env pdf = Inr texts \<and>
          \<not> (list_ex (\<lambda>t. trim t \<noteq> []) texts \<and> hasMyanmarText texts) \<and>
          import_tesseract env = Inr createWorker \<and>
          map createWorker langPaths = map Inl errs"
  proof -
    from b have m: "map createWorker langPaths = map Inl errs" by simp
    then have "length errs = length langPaths" by (metis length_map)
    then have ne: "errs \<noteq> []" by (auto simp: langPaths_def)
    let ?w1 = "setError (Some ocrAdvisory) (call GetDocument ?w0)"
    have "fst (runMyanmarOcrOnPdf env pdf showStatus ?w1) = Inl (loadFailure (Some (last errs)))"
      using b ne loadWorker_all_fail[OF m, of None "call ImportTesseract ?w1"]
      by (simp add: runMyanmarOcrOnPdf_def)
    then show ?thesis
      using b by (cases "runMyanmarOcrOnPdf env pdf showStatus ?w1")
                 (auto simp: processPdfFile_try_def)
  qed
  have C: "isLoading (ui ?w') = False \<and> error (ui ?w') = Some processFailure \<and>
            pdfData (ui ?w') = None \<and>
            (\<exists>evs. trace ?w' = trace w @ OnPdfProcessed [] # evs \<and>
                   list_all (\<lambda>e. \<not> isCallback e) evs \<and>
                   page_after (OnPdfProcessed [] # evs) p
                     = \<lparr>page_pdfData = [], status = Idle\<rparr>)"
    if c: "isl (fst (processPdfFile_try env f ?w0))"
  proof -
    obtain r b w1 where t: "processPdfFile_try env f ?w0 = (r, b, w1)"
      by (cases "processPdfFile_try env f ?w0") auto
    with c obtain err where r: "r = Inl err" by (cases r) auto
    have h: "?w' = processPdfFile_finish (Inl err) b w1"
      using assms t r by (simp add: handleFileChange_def processPdfFile_def)
    have pd: "pdfData (ui w1) = None"
      using try_pdfData[of env f ?w0] t by (simp add: processPdfFile_start_def state_defs)
    obtain evs where tr: "trace w1 = trace ?w0 @ evs" and nc: "list_all (\<lambda>e. \<not> isCallback e) evs"
      using try_trace[of env f ?w0] t by auto
    have t0: "trace ?w0 = trace w @ [OnPdfProcessed []]"
      by (simp add: processPdfFile_start_def state_defs)
    let ?evs = "evs @ (if b then [RevokeObjectURL] else [])"
    have 1: "trace ?w' = trace w @ OnPdfProcessed [] # ?evs"
      using finish_failed[of err b w1] tr t0 by (simp add: h)
    have 2: "list_all (\<lambda>e. \<not> isCallback e) ?evs" using nc by simp
    have "page_after (OnPdfProcessed [] # ?evs) p = handlePdfProcessed [] p"
      using page_after_no_callback[OF 2] by (simp add: page_after_Cons)
    then have 3: "page_after (OnPdfProcessed [] # ?evs) p = \<lparr>page_pdfData = [], status = Idle\<rparr>"
      by (simp add: handlePdfProcessed_def)
    have 4: "isLoading (ui ?w') = False" "error (ui ?w') = Some processFailure"
      "pdfData (ui ?w') = None"
      using finish_failed[of err b w1] pd by (simp_all add: h)
    from 1 2 3 have "\<exists>evs. trace ?w' = trace w @ OnPdfProcessed [] # evs \<and>
                   list_all (\<lambda>e. \<not> isCallback e) evs \<and>
                   page_after (OnPdfProcessed [] # evs) p
                     = \<lparr>page_pdfData = [], status = Idle\<rparr>"
      by blast
    with 4 show ?thesis by simp
  qed
  show ?thesis unfolding Let_def using A B C by blast
qed

lemma ex_scanned_texts:
  "extractTextWithPdfJs ex_browser_offline ex_pdf_scanned = Inr [[], [], []]"
  by (simp add: extractTextWithPdfJs_def extractLoop.simps joinItems_def normalizeOrKeep_def
      example_defs string_defs)

theorem failing_run_leaves_no_dataset_witness:
  "isLoading (ui (handleFileChange ex_browser (Some ex_file_corrupt) ex_world)) = False \<and>
   error (ui (handleFileChange ex_browser (Some ex_file_corrupt) ex_world)) = Some processFailure \<and>
   pdfData (ui (handleFileChange ex_browser (Some ex_file_corrupt) ex_world)) = None \<and>
   isLoading (ui (handleFileChange ex_browser_offline (Some (ex_file ex_pdf_scanned)) ex_world))
     = False \<and>
   error (ui (handleFileChange ex_browser_offline (Some (ex_file ex_pdf_scanned)) ex_world))
     = Some processFailure \<and>
   pdfData (ui (handleFileChange ex_browser_offline (Some (ex_file ex_pdf_scanned)) ex_world))
     = None"
proof -
  have v1: "file_type ex_file_corrupt = jsstr ''application/pdf''"
    "file_size ex_file_corrupt \<le> 20 * 1024 * 1024"
    by (simp_all add: ex_file_corrupt_def)
  have a: "import_pdfjs ex_browser = None \<and>
           getDocument ex_file_corrupt = Inl (Error (jsstr ''Invalid PDF structure.''))"
    by (simp add: ex_browser_def ex_file_corrupt_def)
  note t1 = failing_run_leaves_no_dataset[OF v1, where env = ex_browser and w = ex_world
      and e = "Error (jsstr ''Invalid PDF structure.'')", unfolded Let_def]
  have "isl (fst (processPdfFile_try ex_browser ex_file_corrupt
          (processPdfFile_start (setFile (Some ex_file_corrupt) (resetState ex_world)))))"
    using t1[THEN conjunct1, rule_format, OF a] by simp
  from t1[THEN conjunct2, THEN conjunct2, rule_format, OF this]
  have 1: "isLoading (ui (handleFileChange ex_browser (Some ex_file_corrupt) ex_world)) = False \<and>
   error (ui (handleFileChange ex_browser (Some ex_file_corrupt) ex_world)) = Some processFailure \<and>
   pdfData (ui (handleFileChange ex_browser (Some ex_file_corrupt) ex_world)) = None"
    by blast
  let ?off = "\<lambda>path. Inl (Error (jsstr ''Network error: '' @ path)) :: js_error + ocr_worker"
  have v2: "file_type (ex_file ex_pdf_scanned) = jsstr ''application/pdf''"
    "file_size (ex_file ex_pdf_scanned) \<le> 20 * 1024 * 1024"
    by (simp_all add: ex_file_def)
  have b: "import_pdfjs ex_browser_offline = None \<and>
          getDocument (ex_file ex_pdf_scanned) = Inr ex_pdf_scanned \<and>
          extractTextWithPdfJs ex_browser_offline ex_pdf_scanned = Inr [[], [], []] \<and>
          \<not> (list_ex (\<lambda>t. trim t \<noteq> []) [[], [], []] \<and> hasMyanmarText [[], [], []]) \<and>
          import_tesseract ex_browser_offline = Inr ?off \<and>
          map ?off langPaths = map Inl (map (\<lambda>p. Error (jsstr ''Network error: '' @ p)) langPaths)"
    by (simp add: ex_scanned_texts) (simp add: ex_browser_offline_def ex_file_def string_defs)
  note t2 = failing_run_leaves_no_dataset[OF v2, where env = ex_browser_offline and w = ex_world
      and pdf = ex_pdf_scanned and texts = "[[], [], []]" and createWorker = ?off
      and errs = "map (\<lambda>p. Error (jsstr ''Network error: '' @ p)) langPaths",
      unfolded Let_def]
  have "isl (fst (processPdfFile_try ex_browser_offline (ex_file ex_pdf_scanned)
          (processPdfFile_start (setFile (Some (ex_file ex_pdf_scanned)) (resetState ex_world)))))"
    using t2[THEN conjunct2, THEN conjunct1, rule_format, OF b] by simp
  from t2[THEN conjunct2, THEN conjunct2, rule_format, OF this]
  have 2: "isLoading (ui (handleFileChange ex_browser_offline (Some (ex_file ex_pdf_scanned)) ex_world))
     = False \<and>
   error (ui (handleFileChange ex_browser_offline (Some (ex_file ex_pdf_scanned)) ex_world))
     = Some processFailure \<and>
   pdfData (ui (handleFileChange ex_browser_offline (Some (ex_file ex_pdf_scanned)) ex_world))
     = None"
    by blast
  from 1 2 show ?thesis by simp
qed

section \<open>Reset while a run is pending\<close>




end
